theory Spec2Isabelle
  imports Complex_Main "HOL-Library.Log_Nat"
begin

section \<open>Learning Reminder API: data model\<close>

text \<open>
  The backend keeps three tables (\<open>models.py\<close>); the operations verified here use two
  of them, \<open>learning_items\<close> and \<open>review_schedules\<close>. A table is the list of its
  rows in insertion order and a row is a record with the columns of the class. The
  two classes share the column name \<open>id\<close>, so the fields carry the prefix of their
  table.

  A \<open>DateTime\<close> value is the number of microseconds since 0001-01-01T00:00:00, the
  resolution of Python's \<open>datetime\<close>; a nullable column is an \<open>option\<close>.
\<close>

type_synonym datetime = int

record LearningItem =
  li_id :: int
  li_title :: string
  li_content :: string
  li_learning_date :: datetime
  li_user_id :: int

record ReviewSchedule =
  rs_id :: int
  rs_learning_item_id :: int
  rs_review_number :: int
  rs_review_date :: datetime
  rs_completed :: "datetime option"
  rs_is_deleted :: bool

record db =
  learning_items :: "LearningItem list"
  review_schedules :: "ReviewSchedule list"

text \<open>
  The exceptions that leave an endpoint: \<open>HTTPException\<close> with its status code, and
  the built-in exceptions the handlers do or do not catch.
\<close>

datatype error = HTTPException nat | ValueError | OverflowError

text \<open>Both \<open>id\<close> columns are primary keys: no two rows of a table share one.\<close>

definition wf_db :: "db \<Rightarrow> bool" where
  "wf_db d \<longleftrightarrow>
     distinct (map li_id (learning_items d)) \<and> distinct (map rs_id (review_schedules d))"

section \<open>Single-record operations of \<open>main.py\<close>\<close>

text \<open>
  \<open>query(ReviewSchedule).filter(ReviewSchedule.id == schedule_id).first()\<close> is
  \<open>find\<close> on the table. Assigning to an attribute of the row found and committing
  issues an update of the row with that primary key.
\<close>

definition first_schedule :: "db \<Rightarrow> int \<Rightarrow> ReviewSchedule option" where
  "first_schedule d schedule_id = find (\<lambda>s. rs_id s = schedule_id) (review_schedules d)"

definition update_schedule :: "int \<Rightarrow> (ReviewSchedule \<Rightarrow> ReviewSchedule) \<Rightarrow> db \<Rightarrow> db" where
  "update_schedule schedule_id f d =
     d\<lparr>review_schedules :=
          map (\<lambda>s. if rs_id s = schedule_id then f s else s) (review_schedules d)\<rparr>"

record complete_response =
  cr_completed :: bool
  cr_completed_at :: datetime

text \<open>\<open>complete_review\<close>; \<open>now\<close> is the value of \<open>datetime.utcnow()\<close> at the call.\<close>

definition complete_review ::
    "int \<Rightarrow> datetime \<Rightarrow> db \<Rightarrow> (error + complete_response) \<times> db" where
  "complete_review schedule_id now d =
     (case first_schedule d schedule_id of
        None \<Rightarrow> (Inl (HTTPException 404), d)
      | Some schedule \<Rightarrow>
          (Inr \<lparr>cr_completed = True, cr_completed_at = now\<rparr>,
           update_schedule schedule_id (\<lambda>s. s\<lparr>rs_completed := Some now\<rparr>) d))"

text \<open>\<open>delete_review\<close>; the response carries \<open>is_deleted = True\<close>.\<close>

definition delete_review :: "int \<Rightarrow> db \<Rightarrow> (error + bool) \<times> db" where
  "delete_review schedule_id d =
     (case first_schedule d schedule_id of
        None \<Rightarrow> (Inl (HTTPException 404), d)
      | Some schedule \<Rightarrow>
          (Inr True, update_schedule schedule_id (\<lambda>s. s\<lparr>rs_is_deleted := True\<rparr>) d))"

record schedule_view =
  sv_id :: int
  sv_review_number :: int
  sv_review_date :: datetime
  sv_completed :: bool
  sv_completed_at :: "datetime option"
  sv_is_deleted :: bool

text \<open>\<open>get_review_schedules\<close> (the spec's \<open>list_review_schedules\<close>).\<close>

definition get_review_schedules :: "int \<Rightarrow> db \<Rightarrow> schedule_view list" where
  "get_review_schedules learning_item_id d =
     map (\<lambda>schedule.
            \<lparr>sv_id = rs_id schedule,
             sv_review_number = rs_review_number schedule,
             sv_review_date = rs_review_date schedule,
             sv_completed = (rs_completed schedule \<noteq> None),
             sv_completed_at = rs_completed schedule,
             sv_is_deleted = rs_is_deleted schedule\<rparr>)
         (filter (\<lambda>s. rs_learning_item_id s = learning_item_id \<and> rs_is_deleted s = False)
            (review_schedules d))"

text \<open>
  \<open>delete_learning_item\<close>: a bulk delete of the schedules of the item, then the
  delete of the item itself.
\<close>

definition delete_learning_item :: "int \<Rightarrow> db \<Rightarrow> (error + unit) \<times> db" where
  "delete_learning_item item_id d =
     (case find (\<lambda>i. li_id i = item_id) (learning_items d) of
        None \<Rightarrow> (Inl (HTTPException 404), d)
      | Some item \<Rightarrow>
          (Inr (),
           d\<lparr>review_schedules :=
                filter (\<lambda>s. rs_learning_item_id s \<noteq> item_id) (review_schedules d),
             learning_items := filter (\<lambda>i. li_id i \<noteq> item_id) (learning_items d)\<rparr>))"

section \<open>The Python runtime: floats, \<open>timedelta\<close>, \<open>datetime\<close>\<close>

text \<open>
  A Python \<open>float\<close> is an IEEE 754 binary64 value: a finite value is the rational it
  denotes (the sign of a zero is not kept: \<open>-0.0 == 0.0\<close>), and there are the two
  infinities and NaN. Every arithmetic result is the exact result rounded to the
  nearest representable value, ties to the even significand.
\<close>

datatype pyfloat = Fin rat | PosInf | NegInf | NaN

definition round_half_even :: "rat \<Rightarrow> int" where
  "round_half_even x =
     (let f = \<lfloor>x\<rfloor>; r = x - of_int f
      in if r < 1 / 2 then f else if 1 / 2 < r then f + 1 else if even f then f else f + 1)"

text \<open>The binary exponent of a positive rational: \<open>2 powi expo x \<le> x < 2 powi (expo x + 1)\<close>.\<close>

definition expo :: "rat \<Rightarrow> int" where
  "expo x =
     (if 1 \<le> x then bitlen \<lfloor>x\<rfloor> - 1
      else (let k = bitlen \<lfloor>1 / x\<rfloor> - 1 in if x * 2 ^ nat k = 1 then - k else - k - 1))"

text \<open>
  The spacing of the binary64 values around \<open>x\<close> (53 significant bits, the exponent
  not below \<open>-1022\<close>: the subnormal values share the spacing \<open>2 powi -1074\<close>), and the
  rounding of \<open>x\<close> to that grid.
\<close>

definition ulp :: "rat \<Rightarrow> rat" where
  "ulp x = 2 powi (max (expo \<bar>x\<bar>) (- 1022) - 52)"

definition round_val :: "rat \<Rightarrow> rat" where
  "round_val x = (if x = 0 then 0 else of_int (round_half_even (x / ulp x)) * ulp x)"

definition round_double :: "rat \<Rightarrow> pyfloat" where
  "round_double x =
     (let y = round_val x
      in if 2 powi 1024 \<le> y then PosInf else if y \<le> - (2 powi 1024) then NegInf else Fin y)"

text \<open>A float literal of the source denotes the binary64 value nearest to it.\<close>

definition float_literal :: "rat \<Rightarrow> pyfloat" where
  "float_literal q = round_double q"

text \<open>
  An \<open>int\<close> operand of a float operation is converted first; the conversion rounds
  in the same way and raises \<open>OverflowError\<close> where the result is not finite.
\<close>

definition float_of_int :: "int \<Rightarrow> error + pyfloat" where
  "float_of_int n =
     (case round_double (of_int n) of Fin y \<Rightarrow> Inr (Fin y) | _ \<Rightarrow> Inl OverflowError)"

fun fsign :: "pyfloat \<Rightarrow> int" where
  "fsign (Fin a) = (if 0 < a then 1 else if a < 0 then - 1 else 0)"
| "fsign PosInf = 1"
| "fsign NegInf = - 1"
| "fsign NaN = 0"

fun fmul :: "pyfloat \<Rightarrow> pyfloat \<Rightarrow> pyfloat" where
  "fmul (Fin a) (Fin b) = round_double (a * b)"
| "fmul NaN y = NaN"
| "fmul x NaN = NaN"
| "fmul x y =
     (if 0 < fsign x * fsign y then PosInf else if fsign x * fsign y < 0 then NegInf else NaN)"

fun fadd :: "pyfloat \<Rightarrow> pyfloat \<Rightarrow> pyfloat" where
  "fadd (Fin a) (Fin b) = round_double (a + b)"
| "fadd NaN y = NaN"
| "fadd x NaN = NaN"
| "fadd PosInf NegInf = NaN"
| "fadd NegInf PosInf = NaN"
| "fadd (Fin a) y = y"
| "fadd x y = x"

text \<open>The result type of \<open>round\<close> and of the analytics: an \<open>int\<close> or a \<open>float\<close>.\<close>

datatype pynum = PyInt int | PyFloat pyfloat

text \<open>Comparison of a number with an \<open>int\<close> literal; it is exact, and false on NaN.\<close>

fun num_lt :: "pynum \<Rightarrow> int \<Rightarrow> bool" where
  "num_lt (PyInt i) k = (i < k)"
| "num_lt (PyFloat (Fin x)) k = (x < of_int k)"
| "num_lt (PyFloat NegInf) k = True"
| "num_lt (PyFloat PosInf) k = False"
| "num_lt (PyFloat NaN) k = False"

fun num_gt :: "pynum \<Rightarrow> int \<Rightarrow> bool" where
  "num_gt (PyInt i) k = (k < i)"
| "num_gt (PyFloat (Fin x)) k = (of_int k < x)"
| "num_gt (PyFloat PosInf) k = True"
| "num_gt (PyFloat NegInf) k = False"
| "num_gt (PyFloat NaN) k = False"

text \<open>\<open>int(x)\<close> of a float truncates towards zero.\<close>

definition py_trunc :: "rat \<Rightarrow> int" where
  "py_trunc x = (if 0 \<le> x then \<lfloor>x\<rfloor> else \<lceil>x\<rceil>)"

fun py_int :: "pyfloat \<Rightarrow> error + int" where
  "py_int (Fin x) = Inr (py_trunc x)"
| "py_int NaN = Inl ValueError"
| "py_int x = Inl OverflowError"

text \<open>
  \<open>round(x, 1)\<close>: an \<open>int\<close> is returned as it is; a finite float is rounded
  correctly (ties of the exact value to even) to one decimal digit and the decimal
  result is read back as a float; an infinity or NaN rounds to itself.
\<close>

fun py_round1 :: "pynum \<Rightarrow> pynum" where
  "py_round1 (PyInt i) = PyInt i"
| "py_round1 (PyFloat (Fin x)) = PyFloat (round_double (of_int (round_half_even (x * 10)) / 10))"
| "py_round1 (PyFloat x) = PyFloat x"

text \<open>
  \<open>timedelta\<close> (CPython's \<open>_datetime\<close>) counts microseconds. With an \<open>int\<close> number
  of hours the count is exact. With a \<open>float\<close> the whole hours are converted
  exactly, the fractional hour is multiplied by 3600000000 in float arithmetic, and
  the sum is rounded to a whole microsecond, ties to even. A count of more than
  999999999 days either way raises \<open>OverflowError\<close>.
\<close>

definition us_per_hour :: int where
  "us_per_hour = 3600000000"

definition microseconds_to_delta :: "int \<Rightarrow> error + int" where
  "microseconds_to_delta us =
     (if - 999999999 \<le> us div 86400000000 \<and> us div 86400000000 \<le> 999999999
      then Inr us else Inl OverflowError)"

definition timedelta_hours_int :: "int \<Rightarrow> error + int" where
  "timedelta_hours_int hours = microseconds_to_delta (hours * us_per_hour)"

definition hours_us :: "rat \<Rightarrow> int" where
  "hours_us x =
     (let intpart = py_trunc x;
          fracpart = x - of_int intpart;
          sum = intpart * us_per_hour
      in if fracpart = 0 then sum
         else round_half_even (of_int sum + round_val (of_int us_per_hour * fracpart)))"

fun timedelta_hours :: "pyfloat \<Rightarrow> error + int" where
  "timedelta_hours (Fin x) = microseconds_to_delta (hours_us x)"
| "timedelta_hours NaN = Inl ValueError"
| "timedelta_hours x = Inl OverflowError"

text \<open>
  \<open>datetime + timedelta\<close> raises \<open>OverflowError\<close> where the sum leaves the years
  1 to 9999; \<open>datetime_max\<close> is 9999-12-31T23:59:59.999999.
\<close>

definition datetime_max :: datetime where
  "datetime_max = 3652059 * 86400000000 - 1"

definition datetime_add :: "datetime \<Rightarrow> int \<Rightarrow> error + datetime" where
  "datetime_add date delta =
     (if 0 \<le> date + delta \<and> date + delta \<le> datetime_max then Inr (date + delta)
      else Inl OverflowError)"

text \<open>Sequencing of computations that may raise; a comprehension stops at the first raise.\<close>

fun bind_err :: "error + 'a \<Rightarrow> ('a \<Rightarrow> error + 'b) \<Rightarrow> error + 'b" where
  "bind_err (Inl e) f = Inl e"
| "bind_err (Inr x) f = f x"

fun collect :: "(error + 'a) list \<Rightarrow> error + 'a list" where
  "collect [] = Inr []"
| "collect (Inl e # rs) = Inl e"
| "collect (Inr x # rs) = (case collect rs of Inl e \<Rightarrow> Inl e | Inr xs \<Rightarrow> Inr (x # xs))"

section \<open>\<open>analytics.py\<close>\<close>

record analytics =
  an_total_items :: nat
  an_completion_rate :: pynum

text \<open>
  \<open>query(ReviewSchedule).join(LearningItem).filter(...)\<close> ranges over the pairs of a
  schedule and the learning item its foreign key names.
\<close>

definition joined :: "db \<Rightarrow> (ReviewSchedule \<times> LearningItem) list" where
  "joined d =
     [(s, i). s \<leftarrow> review_schedules d, i \<leftarrow> learning_items d, rs_learning_item_id s = li_id i]"

definition analyze_learning_pattern :: "db \<Rightarrow> int \<Rightarrow> analytics" where
  "analyze_learning_pattern d user_id =
     (let total_items = length (filter (\<lambda>i. li_user_id i = user_id) (learning_items d));
          all_schedules =
            length (filter (\<lambda>(s, i). li_user_id i = user_id \<and> rs_is_deleted s = False)
                      (joined d));
          completed_schedules =
            length (filter (\<lambda>(s, i). li_user_id i = user_id \<and> rs_completed s \<noteq> None
                                       \<and> rs_is_deleted s = False)
                      (joined d));
          completion_rate =
            (if all_schedules > 0
             then PyFloat (fmul (round_double (of_nat completed_schedules / of_nat all_schedules))
                             (Fin 100))
             else PyInt 0)
      in \<lparr>an_total_items = total_items, an_completion_rate = py_round1 completion_rate\<rparr>)"

definition optimize_review_intervals :: "pynum \<Rightarrow> int list \<Rightarrow> error + int list" where
  "optimize_review_intervals completion_rate base_intervals =
     (let adjustment =
            (if num_lt completion_rate 50 then float_literal (8 / 10)
             else if num_gt completion_rate 80 then float_literal (12 / 10)
             else float_literal 1)
      in collect (map (\<lambda>interval.
                         bind_err (float_of_int interval) (\<lambda>x. py_int (fmul x adjustment)))
                    base_intervals))"

section \<open>\<open>calculate_reviews\<close> and \<open>create_learning_item\<close>\<close>

definition BASE_INTERVALS :: "int list" where
  "BASE_INTERVALS = [1, 24, 72, 168, 336, 720]"

record review_entry =
  re_review_number :: int
  re_review_date :: datetime
  re_interval_hours :: pyfloat
  re_completed :: bool
  re_is_deleted :: bool

text \<open>
  \<open>datetime.fromisoformat\<close> is a parameter of the two endpoints that parse a date:
  \<open>None\<close> where it raises \<open>ValueError\<close>. The entries of the response carry the
  review date itself, of which \<open>isoformat()\<close> is the rendering.
\<close>

definition adjusted_intervals :: "int \<Rightarrow> error + pyfloat list" where
  "adjusted_intervals repetition_number =
     collect (map (\<lambda>interval.
                     bind_err (float_of_int repetition_number) (\<lambda>r.
                     bind_err (float_of_int interval) (\<lambda>b.
                       Inr (fmul b (fadd (Fin 1) (fmul (float_literal (1 / 10)) r))))))
                [1, 24, 72, 168, 336, 720])"

definition calculate_reviews ::
    "(string \<Rightarrow> datetime option) \<Rightarrow> string \<Rightarrow> int \<Rightarrow> error + review_entry list" where
  "calculate_reviews fromisoformat learning_date repetition_number =
     (case (case fromisoformat learning_date of
              None \<Rightarrow> Inl ValueError
            | Some date \<Rightarrow>
                bind_err (adjusted_intervals repetition_number) (\<lambda>intervals.
                bind_err (collect (map (\<lambda>interval.
                                          bind_err (timedelta_hours interval) (datetime_add date))
                                     intervals)) (\<lambda>review_dates.
                  Inr (map (\<lambda>(i, (review_date, interval)).
                              \<lparr>re_review_number = int i + 1,
                               re_review_date = review_date,
                               re_interval_hours = interval,
                               re_completed = False,
                               re_is_deleted = False\<rparr>)
                         (enumerate 0 (zip review_dates intervals))))))
      of Inl ValueError \<Rightarrow> Inl (HTTPException 400)
       | r \<Rightarrow> r)"

record LearningItemCreate =
  lic_title :: string
  lic_content :: string
  lic_learning_date :: string
  lic_user_id :: int

record create_response =
  resp_item_id :: int
  resp_title :: string
  resp_learning_date :: datetime

text \<open>
  The key of a new row is given by the store (the module \<open>database\<close> is not among
  the sources): one more than the largest key of the table, starting at 1.
\<close>

definition next_id :: "int list \<Rightarrow> int" where
  "next_id ids = fold max ids 0 + 1"

definition new_schedules :: "int \<Rightarrow> int \<Rightarrow> datetime list \<Rightarrow> ReviewSchedule list" where
  "new_schedules first_id item_id review_dates =
     map (\<lambda>(i, review_date).
            \<lparr>rs_id = first_id + int i - 1,
             rs_learning_item_id = item_id,
             rs_review_number = int i,
             rs_review_date = review_date,
             rs_completed = None,
             rs_is_deleted = False\<rparr>)
       (enumerate 1 review_dates)"

text \<open>
  \<open>create_learning_item\<close>. The handlers turn a \<open>ValueError\<close> into status 400 and any
  other exception into status 500. An exception after \<open>db.flush()\<close> leaves the
  transaction uncommitted (the session comes from the module \<open>database\<close> and is
  given up with the request), and the store is as it was before the request.
\<close>

fun handler :: "error \<Rightarrow> error" where
  "handler ValueError = HTTPException 400"
| "handler e = HTTPException 500"

definition create_learning_item ::
    "(string \<Rightarrow> datetime option) \<Rightarrow> LearningItemCreate \<Rightarrow> db \<Rightarrow> (error + create_response) \<times> db" where
  "create_learning_item fromisoformat item d =
     (case fromisoformat (lic_learning_date item) of
        None \<Rightarrow> (Inl (handler ValueError), d)
      | Some learning_date \<Rightarrow>
          (let analytics = analyze_learning_pattern d (lic_user_id item) in
           case optimize_review_intervals (an_completion_rate analytics) BASE_INTERVALS of
             Inl e \<Rightarrow> (Inl (handler e), d)
           | Inr intervals \<Rightarrow>
               (let db_item = \<lparr>li_id = next_id (map li_id (learning_items d)),
                               li_title = lic_title item,
                               li_content = lic_content item,
                               li_learning_date = learning_date,
                               li_user_id = lic_user_id item\<rparr>
                in case collect (map (\<lambda>interval.
                                        bind_err (timedelta_hours_int interval)
                                          (datetime_add learning_date))
                                   intervals) of
                     Inl e \<Rightarrow> (Inl (handler e), d)
                   | Inr review_dates \<Rightarrow>
                       (Inr \<lparr>resp_item_id = li_id db_item,
                             resp_title = li_title db_item,
                             resp_learning_date = li_learning_date db_item\<rparr>,
                        d\<lparr>learning_items := learning_items d @ [db_item],
                          review_schedules := review_schedules d @
                            new_schedules (next_id (map rs_id (review_schedules d)))
                              (li_id db_item) review_dates\<rparr>))))"

section \<open>The schedule and the counts in the words of the specification\<close>

text \<open>
  The factor \<open>1 + 0.1 \<times> repetition_number\<close> in float arithmetic, and the six records
  of the specification for an anchor \<open>T\<close> and a finite factor \<open>f\<close>: record \<open>i\<close> has the
  interval \<open>base\<^sub>i \<times> f\<close> (the float product) and the date \<open>T\<close> plus that many hours
  (in the microseconds of \<open>timedelta\<close>).
\<close>

definition spec_factor :: "int \<Rightarrow> error + pyfloat" where
  "spec_factor n =
     bind_err (float_of_int n) (\<lambda>r. Inr (fadd (Fin 1) (fmul (float_literal (1 / 10)) r)))"

definition spec_review_schedule :: "datetime \<Rightarrow> rat \<Rightarrow> review_entry list" where
  "spec_review_schedule T f =
     map (\<lambda>(i, b).
            \<lparr>re_review_number = int i + 1,
             re_review_date = T + hours_us (round_val (of_int b * f)),
             re_interval_hours = Fin (round_val (of_int b * f)),
             re_completed = False,
             re_is_deleted = False\<rparr>)
       (enumerate 0 BASE_INTERVALS)"

text \<open>
  The adjustment factor of the optimizer as a number: the binary64 values nearest to
  0.8 and 1.2, or 1; and an entry scaled by a factor: the entry converted to a float,
  the float product, truncated to an integer.
\<close>

definition adjustment_factor :: "pynum \<Rightarrow> rat" where
  "adjustment_factor r =
     (if num_lt r 50 then 3602879701896397 / 4503599627370496
      else if num_gt r 80 then 5404319552844595 / 4503599627370496
      else 1)"

definition scaled_interval :: "rat \<Rightarrow> int \<Rightarrow> int" where
  "scaled_interval f b = py_trunc (round_val (round_val (of_int b) * f))"


section \<open>Sample data\<close>

text \<open>
  A store with two learning items of user 1 and three schedules: the first completed,
  the second soft-deleted, the third (of the other item) open; a store where user 7
  has completed one schedule of three; the empty store; and a parser that accepts two
  dates, 2024-01-01T00:00:00 and 9999-12-31T23:30:00.
\<close>

definition sample_db :: db where
  "sample_db =
     \<lparr>learning_items =
        [\<lparr>li_id = 1, li_title = ''a'', li_content = ''x'', li_learning_date = 1000, li_user_id = 1\<rparr>,
         \<lparr>li_id = 2, li_title = ''b'', li_content = ''y'', li_learning_date = 2000, li_user_id = 1\<rparr>],
      review_schedules =
        [\<lparr>rs_id = 1, rs_learning_item_id = 1, rs_review_number = 1, rs_review_date = 1000,
          rs_completed = Some 50, rs_is_deleted = False\<rparr>,
         \<lparr>rs_id = 2, rs_learning_item_id = 1, rs_review_number = 2, rs_review_date = 1100,
          rs_completed = None, rs_is_deleted = True\<rparr>,
         \<lparr>rs_id = 3, rs_learning_item_id = 2, rs_review_number = 1, rs_review_date = 2000,
          rs_completed = None, rs_is_deleted = False\<rparr>]\<rparr>"


definition empty_db :: db where
  "empty_db = \<lparr>learning_items = [], review_schedules = []\<rparr>"

definition sample_parser :: "string \<Rightarrow> datetime option" where
  "sample_parser s =
     (if s = ''2024-01-01T00:00:00'' then Some 63839664000000000
      else if s = ''9999-12-31T23:30:00'' then Some 315537895800000000
      else None)"

definition sample_item :: "string \<Rightarrow> LearningItemCreate" where
  "sample_item s = \<lparr>lic_title = ''t'', lic_content = ''c'', lic_learning_date = s, lic_user_id = 1\<rparr>"

section \<open>Lookup and update\<close>

lemma first_schedule_None:
  "first_schedule d k = None \<longleftrightarrow> k \<notin> rs_id ` set (review_schedules d)"
  by (auto simp: first_schedule_def find_None_iff)

lemma first_schedule_Some:
  "first_schedule d k = Some s \<Longrightarrow> s \<in> set (review_schedules d) \<and> rs_id s = k"
  by (auto simp: first_schedule_def find_Some_iff)

lemma first_schedule_found:
  "k \<in> rs_id ` set (review_schedules d) \<Longrightarrow> \<exists>s. first_schedule d k = Some s"
  using first_schedule_None [of d k] by (cases "first_schedule d k") auto

lemma complete_review_missing:
  "k \<notin> rs_id ` set (review_schedules d) \<Longrightarrow>
     complete_review k now d = (Inl (HTTPException 404), d)"
proof -
  assume "k \<notin> rs_id ` set (review_schedules d)"
  then have "first_schedule d k = None" by (simp add: first_schedule_None)
  then show ?thesis by (simp add: complete_review_def)
qed

lemma delete_review_missing:
  "k \<notin> rs_id ` set (review_schedules d) \<Longrightarrow> delete_review k d = (Inl (HTTPException 404), d)"
proof -
  assume "k \<notin> rs_id ` set (review_schedules d)"
  then have "first_schedule d k = None" by (simp add: first_schedule_None)
  then show ?thesis by (simp add: delete_review_def)
qed

lemma complete_review_present:
  assumes "k \<in> rs_id ` set (review_schedules d)"
  shows "complete_review k now d =
           (Inr \<lparr>cr_completed = True, cr_completed_at = now\<rparr>,
            update_schedule k (\<lambda>s. s\<lparr>rs_completed := Some now\<rparr>) d)"
  using first_schedule_found [OF assms] by (auto simp: complete_review_def)

lemma delete_review_present:
  assumes "k \<in> rs_id ` set (review_schedules d)"
  shows "delete_review k d = (Inr True, update_schedule k (\<lambda>s. s\<lparr>rs_is_deleted := True\<rparr>) d)"
  using first_schedule_found [OF assms] by (auto simp: delete_review_def)

lemma update_schedule_tables:
  "learning_items (update_schedule k f d) = learning_items d"
  "review_schedules (update_schedule k f d) =
     map (\<lambda>s. if rs_id s = k then f s else s) (review_schedules d)"
  by (simp_all add: update_schedule_def)

section \<open>Completion and soft deletion of a schedule\<close>

text \<open>
  C8. \<open>complete_review\<close> and \<open>delete_review\<close> answer 404 exactly when no stored
  schedule has the id, and then return the store as it was. When a schedule has the
  id, \<open>complete_review\<close> sets its \<open>completed\<close> column to the time of the call and
  \<open>delete_review\<close> sets its \<open>is_deleted\<close> column; nothing else changes.
\<close>

theorem review_not_found_iff:
  "(k \<notin> rs_id ` set (review_schedules d) \<longrightarrow>
      complete_review k now d = (Inl (HTTPException 404), d) \<and>
      delete_review k d = (Inl (HTTPException 404), d)) \<and>
   (k \<in> rs_id ` set (review_schedules d) \<longrightarrow>
      (\<exists>r d'. complete_review k now d = (Inr r, d') \<and> cr_completed_at r = now \<and>
         learning_items d' = learning_items d \<and>
         review_schedules d' =
           map (\<lambda>s. if rs_id s = k then s\<lparr>rs_completed := Some now\<rparr> else s) (review_schedules d)) \<and>
      (\<exists>d'. delete_review k d = (Inr True, d') \<and>
         learning_items d' = learning_items d \<and>
         review_schedules d' =
           map (\<lambda>s. if rs_id s = k then s\<lparr>rs_is_deleted := True\<rparr> else s) (review_schedules d)))"
  by (simp add: complete_review_missing delete_review_missing complete_review_present
      delete_review_present update_schedule_tables)

theorem review_not_found_iff_witness:
  "complete_review 7 100 sample_db = (Inl (HTTPException 404), sample_db) \<and>
   delete_review 7 sample_db = (Inl (HTTPException 404), sample_db) \<and>
   map rs_completed (review_schedules (snd (complete_review 3 100 sample_db))) =
     [Some 50, None, Some 100] \<and>
   map rs_is_deleted (review_schedules (snd (delete_review 3 sample_db))) = [False, True, True]"
proof -
  have absent: "7 \<notin> rs_id ` set (review_schedules sample_db)"
    by (simp add: sample_db_def)
  have present: "3 \<in> rs_id ` set (review_schedules sample_db)"
    by (simp add: sample_db_def)
  from absent review_not_found_iff [of 7 sample_db 100]
  have a: "complete_review 7 100 sample_db = (Inl (HTTPException 404), sample_db)"
    "delete_review 7 sample_db = (Inl (HTTPException 404), sample_db)"
    by simp_all
  from present review_not_found_iff [of 3 sample_db 100]
  have b: "review_schedules (snd (complete_review 3 100 sample_db)) =
      map (\<lambda>s. if rs_id s = 3 then s\<lparr>rs_completed := Some 100\<rparr> else s) (review_schedules sample_db)"
    "review_schedules (snd (delete_review 3 sample_db)) =
      map (\<lambda>s. if rs_id s = 3 then s\<lparr>rs_is_deleted := True\<rparr> else s) (review_schedules sample_db)"
    by auto
  show ?thesis
    unfolding a b by (simp add: sample_db_def)
qed

text \<open>
  C10. A soft-deleted schedule is still found by the two mutating endpoints:
  \<open>complete_review\<close> succeeds on it and sets its completion time, and \<open>delete_review\<close>
  succeeds again and leaves the row as it is, still deleted.
\<close>

theorem soft_deleted_still_mutable:
  assumes "s \<in> set (review_schedules d)" and "rs_is_deleted s"
  shows "(\<exists>r d'. complete_review (rs_id s) now d = (Inr r, d') \<and>
            s\<lparr>rs_completed := Some now\<rparr> \<in> set (review_schedules d') \<and>
            (\<forall>s' \<in> set (review_schedules d'). rs_id s' = rs_id s \<longrightarrow> rs_completed s' = Some now)) \<and>
         (\<exists>d'. delete_review (rs_id s) d = (Inr True, d') \<and>
            s \<in> set (review_schedules d') \<and>
            (\<forall>s' \<in> set (review_schedules d'). rs_id s' = rs_id s \<longrightarrow> rs_is_deleted s'))"
proof -
  let ?c = "\<lambda>x. if rs_id x = rs_id s then x\<lparr>rs_completed := Some now\<rparr> else x"
  let ?e = "\<lambda>x. if rs_id x = rs_id s then x\<lparr>rs_is_deleted := True\<rparr> else x"
  from assms(1) have mem: "rs_id s \<in> rs_id ` set (review_schedules d)"
    by (rule imageI)
  have keep: "?e s = s"
    by (simp add: assms(2))
  have c1: "s\<lparr>rs_completed := Some now\<rparr> \<in> ?c ` set (review_schedules d)"
    by (rule image_eqI [where x = s]) (simp_all add: assms(1))
  have c2: "\<forall>s' \<in> ?c ` set (review_schedules d). rs_id s' = rs_id s \<longrightarrow> rs_completed s' = Some now"
    by auto
  have e1: "s \<in> ?e ` set (review_schedules d)"
    by (rule image_eqI [where x = s and f = ?e, OF keep [symmetric] assms(1)])
  have e2: "\<forall>s' \<in> ?e ` set (review_schedules d). rs_id s' = rs_id s \<longrightarrow> rs_is_deleted s'"
    by auto
  have "complete_review (rs_id s) now d =
      (Inr \<lparr>cr_completed = True, cr_completed_at = now\<rparr>,
       update_schedule (rs_id s) (\<lambda>s. s\<lparr>rs_completed := Some now\<rparr>) d)"
    by (rule complete_review_present [OF mem])
  moreover have "set (review_schedules (update_schedule (rs_id s) (\<lambda>s. s\<lparr>rs_completed := Some now\<rparr>) d))
      = ?c ` set (review_schedules d)"
    by (simp only: update_schedule_tables set_map)
  moreover have "delete_review (rs_id s) d =
      (Inr True, update_schedule (rs_id s) (\<lambda>s. s\<lparr>rs_is_deleted := True\<rparr>) d)"
    by (rule delete_review_present [OF mem])
  moreover have "set (review_schedules (update_schedule (rs_id s) (\<lambda>s. s\<lparr>rs_is_deleted := True\<rparr>) d))
      = ?e ` set (review_schedules d)"
    by (simp only: update_schedule_tables set_map)
  ultimately show ?thesis
    using c1 c2 e1 e2 by (intro conjI exI) (assumption | simp only:)+
qed

theorem soft_deleted_still_mutable_witness:
  "map rs_completed (review_schedules (snd (complete_review 2 100 sample_db))) =
     [Some 50, Some 100, None] \<and>
   delete_review 2 sample_db = (Inr True, sample_db)"
proof -
  let ?s = "\<lparr>rs_id = 2, rs_learning_item_id = 1, rs_review_number = 2, rs_review_date = 1100,
          rs_completed = None, rs_is_deleted = True\<rparr>"
  have m: "?s \<in> set (review_schedules sample_db)" and del: "rs_is_deleted ?s"
    by (simp_all add: sample_db_def)
  from soft_deleted_still_mutable [OF m del, of 100]
  have "fst (complete_review 2 100 sample_db) \<noteq> Inl (HTTPException 404)"
    and "fst (delete_review 2 sample_db) = Inr True"
    by auto
  then show ?thesis
    by (simp add: complete_review_def delete_review_def first_schedule_def update_schedule_def
        sample_db_def)
qed

section \<open>Creation and deletion of learning items\<close>

lemma create_learning_item_tables:
  "\<exists>is ss. learning_items (snd (create_learning_item fromisoformat item d)) = learning_items d @ is \<and>
     review_schedules (snd (create_learning_item fromisoformat item d)) = review_schedules d @ ss"
  by (simp add: create_learning_item_def Let_def split: option.splits sum.splits)

lemma create_learning_item_failure:
  "fst (create_learning_item fromisoformat item d) = Inl e \<Longrightarrow>
     snd (create_learning_item fromisoformat item d) = d"
  by (simp add: create_learning_item_def Let_def split: option.splits sum.splits)

lemma find_item_present:
  "i \<in> set (learning_items d) \<Longrightarrow> \<exists>j. find (\<lambda>x. li_id x = li_id i) (learning_items d) = Some j"
  by (cases "find (\<lambda>x. li_id x = li_id i) (learning_items d)") (auto simp: find_None_iff)

lemma delete_learning_item_present:
  assumes "i \<in> set (learning_items d)"
  shows "delete_learning_item (li_id i) d =
     (Inr (),
      d\<lparr>review_schedules :=
           filter (\<lambda>s. rs_learning_item_id s \<noteq> li_id i) (review_schedules d),
        learning_items := filter (\<lambda>x. li_id x \<noteq> li_id i) (learning_items d)\<rparr>)"
  using find_item_present [OF assms] by (auto simp: delete_learning_item_def)

text \<open>
  C4 (as amended). The \<open>completed\<close> column of a schedule that is already completed is
  not protected: \<open>complete_review\<close> on its id stores the time of the new call, so the
  last completion wins. The other operations leave the column alone:
  \<open>complete_review\<close> on another id and \<open>create_learning_item\<close> keep the row,
  \<open>delete_review\<close> keeps the \<open>completed\<close> column of every row.
\<close>

theorem complete_review_overwrites:
  assumes "s \<in> set (review_schedules d)" and "rs_completed s = Some t"
  shows "s\<lparr>rs_completed := Some now\<rparr> \<in> set (review_schedules (snd (complete_review (rs_id s) now d))) \<and>
         (\<forall>s' \<in> set (review_schedules (snd (complete_review (rs_id s) now d))).
            rs_id s' = rs_id s \<longrightarrow> rs_completed s' = Some now) \<and>
         (k \<noteq> rs_id s \<longrightarrow> s \<in> set (review_schedules (snd (complete_review k now d)))) \<and>
         map rs_completed (review_schedules (snd (delete_review k d))) =
           map rs_completed (review_schedules d) \<and>
         s \<in> set (review_schedules (snd (create_learning_item fromisoformat item d)))"
proof -
  let ?c = "\<lambda>x. if rs_id x = rs_id s then x\<lparr>rs_completed := Some now\<rparr> else x"
  from assms(1) have mem: "rs_id s \<in> rs_id ` set (review_schedules d)"
    by (rule imageI)
  have tab: "set (review_schedules (snd (complete_review (rs_id s) now d))) = ?c ` set (review_schedules d)"
    by (simp only: complete_review_present [OF mem] snd_conv update_schedule_tables set_map)
  have c1: "s\<lparr>rs_completed := Some now\<rparr> \<in> ?c ` set (review_schedules d)"
    by (rule image_eqI [where x = s]) (simp_all add: assms(1))
  have c2: "\<forall>s' \<in> ?c ` set (review_schedules d). rs_id s' = rs_id s \<longrightarrow> rs_completed s' = Some now"
    by auto
  have c3: "k \<noteq> rs_id s \<longrightarrow> s \<in> set (review_schedules (snd (complete_review k now d)))"
  proof (cases "k \<in> rs_id ` set (review_schedules d)")
    case True
    have "k \<noteq> rs_id s \<Longrightarrow>
        s \<in> (\<lambda>x. if rs_id x = k then x\<lparr>rs_completed := Some now\<rparr> else x) ` set (review_schedules d)"
      by (rule image_eqI [where x = s]) (simp_all add: assms(1))
    then show ?thesis
      by (simp only: complete_review_present [OF True] snd_conv update_schedule_tables set_map)
        blast
  next
    case False
    then show ?thesis
      by (simp add: complete_review_missing assms(1))
  qed
  have c4: "map rs_completed (review_schedules (snd (delete_review k d))) =
           map rs_completed (review_schedules d)"
  proof (cases "k \<in> rs_id ` set (review_schedules d)")
    case True
    show ?thesis
      by (simp add: delete_review_present [OF True] update_schedule_tables comp_def if_distrib
          cong: if_cong)
  next
    case False
    then show ?thesis
      by (simp add: delete_review_missing)
  qed
  have c5: "s \<in> set (review_schedules (snd (create_learning_item fromisoformat item d)))"
    using create_learning_item_tables [of fromisoformat item d] assms(1) by auto
  from c1 c2 c3 c4 c5 show ?thesis
    unfolding tab by blast
qed

theorem complete_review_overwrites_witness:
  "map rs_completed (review_schedules (snd (complete_review 1 100 sample_db))) =
     [Some 100, None, None]"
proof -
  let ?s = "\<lparr>rs_id = 1, rs_learning_item_id = 1, rs_review_number = 1, rs_review_date = 1000,
          rs_completed = Some 50, rs_is_deleted = False\<rparr>"
  have m: "?s \<in> set (review_schedules sample_db)" and c: "rs_completed ?s = Some 50"
    by (simp_all add: sample_db_def)
  from complete_review_overwrites [OF m c, of 100]
  have "?s\<lparr>rs_completed := Some 100\<rparr> \<in> set (review_schedules (snd (complete_review 1 100 sample_db)))"
    by simp
  then show ?thesis
    by (simp add: complete_review_def first_schedule_def update_schedule_def sample_db_def)
qed

text \<open>
  C4 as stated fails: schedule 1 of the sample store was completed at time 50, and a
  second \<open>complete_review\<close> at time 100 replaces the timestamp.
\<close>

theorem completed_set_once_counterexample:
  "map_option rs_completed (first_schedule sample_db 1) = Some (Some 50) \<and>
   map_option rs_completed (first_schedule (snd (complete_review 1 100 sample_db)) 1) =
     Some (Some 100)"
  by (simp add: complete_review_def first_schedule_def update_schedule_def sample_db_def)

text \<open>
  C6. Where \<open>fromisoformat\<close> raises \<open>ValueError\<close> on the date string, \<open>calculate_reviews\<close>
  raises \<open>HTTPException\<close> with status 400, and so does \<open>create_learning_item\<close>, which
  returns the store as it was.
\<close>

theorem invalid_date_rejected:
  assumes "fromisoformat s = None"
  shows "calculate_reviews fromisoformat s n = Inl (HTTPException 400) \<and>
         (lic_learning_date item = s \<longrightarrow>
            create_learning_item fromisoformat item d = (Inl (HTTPException 400), d))"
  using assms by (simp add: calculate_reviews_def create_learning_item_def)

theorem invalid_date_rejected_witness:
  "calculate_reviews sample_parser ''2024-13-01'' 0 = Inl (HTTPException 400) \<and>
   create_learning_item sample_parser (sample_item ''2024-13-01'') sample_db =
     (Inl (HTTPException 400), sample_db)"
proof -
  have h: "sample_parser ''2024-13-01'' = None"
    by (simp add: sample_parser_def)
  have l: "lic_learning_date (sample_item ''2024-13-01'') = ''2024-13-01''"
    by (simp add: sample_item_def)
  from invalid_date_rejected [where fromisoformat = sample_parser and s = "''2024-13-01''"
      and n = 0 and item = "sample_item ''2024-13-01''" and d = sample_db, OF h] l
  show ?thesis by simp
qed

text \<open>
  C5. Deleting a stored learning item succeeds and removes the item and every schedule
  whose parent it is: \<open>get_review_schedules\<close> of the item is empty afterwards, and
  \<open>complete_review\<close> and \<open>delete_review\<close> answer 404 on the id of each schedule the item
  had, since the direct lookup no longer finds it. The store satisfies its primary keys.
\<close>

theorem delete_learning_item_cascade:
  assumes "wf_db d" and "i \<in> set (learning_items d)"
  shows "\<exists>d'. delete_learning_item (li_id i) d = (Inr (), d') \<and>
           (\<forall>j \<in> set (learning_items d'). li_id j \<noteq> li_id i) \<and>
           (\<forall>s \<in> set (review_schedules d'). rs_learning_item_id s \<noteq> li_id i) \<and>
           get_review_schedules (li_id i) d' = [] \<and>
           (\<forall>s \<in> set (review_schedules d). rs_learning_item_id s = li_id i \<longrightarrow>
              first_schedule d' (rs_id s) = None \<and>
              complete_review (rs_id s) now d' = (Inl (HTTPException 404), d') \<and>
              delete_review (rs_id s) d' = (Inl (HTTPException 404), d'))"
proof -
  let ?d' = "d\<lparr>review_schedules :=
           filter (\<lambda>s. rs_learning_item_id s \<noteq> li_id i) (review_schedules d),
        learning_items := filter (\<lambda>x. li_id x \<noteq> li_id i) (learning_items d)\<rparr>"
  have del: "delete_learning_item (li_id i) d = (Inr (), ?d')"
    by (rule delete_learning_item_present [OF assms(2)])
  have a: "\<forall>j \<in> set (learning_items ?d'). li_id j \<noteq> li_id i"
    by simp
  have b: "\<forall>s \<in> set (review_schedules ?d'). rs_learning_item_id s \<noteq> li_id i"
    by simp
  have c: "get_review_schedules (li_id i) ?d' = []"
    by (simp add: get_review_schedules_def filter_empty_conv)
  have gone: "rs_id s \<notin> rs_id ` set (review_schedules ?d')"
    if s: "s \<in> set (review_schedules d)" and p: "rs_learning_item_id s = li_id i" for s
  proof
    assume "rs_id s \<in> rs_id ` set (review_schedules ?d')"
    then obtain s' where s': "s' \<in> set (review_schedules d)" "rs_learning_item_id s' \<noteq> li_id i"
      "rs_id s' = rs_id s"
      by auto
    from assms(1) have "inj_on rs_id (set (review_schedules d))"
      by (simp add: wf_db_def distinct_map)
    with s s' have "s' = s"
      by (auto dest: inj_onD)
    with s' p show False by simp
  qed
  have e: "\<forall>s \<in> set (review_schedules d). rs_learning_item_id s = li_id i \<longrightarrow>
              first_schedule ?d' (rs_id s) = None \<and>
              complete_review (rs_id s) now ?d' = (Inl (HTTPException 404), ?d') \<and>
              delete_review (rs_id s) ?d' = (Inl (HTTPException 404), ?d')"
  proof (intro ballI impI)
    fix s
    assume "s \<in> set (review_schedules d)" and "rs_learning_item_id s = li_id i"
    then have g: "rs_id s \<notin> rs_id ` set (review_schedules ?d')"
      by (rule gone)
    from g have "first_schedule ?d' (rs_id s) = None"
      by (simp only: first_schedule_None not_False_eq_True)
    with g show "first_schedule ?d' (rs_id s) = None \<and>
              complete_review (rs_id s) now ?d' = (Inl (HTTPException 404), ?d') \<and>
              delete_review (rs_id s) ?d' = (Inl (HTTPException 404), ?d')"
      by (simp only: complete_review_missing delete_review_missing simp_thms)
  qed
  from del a b c e show ?thesis
    by blast
qed

theorem delete_learning_item_cascade_witness:
  "wf_db sample_db \<and>
   map rs_id (review_schedules (snd (delete_learning_item 1 sample_db))) = [3] \<and>
   get_review_schedules 1 (snd (delete_learning_item 1 sample_db)) = [] \<and>
   fst (complete_review 2 100 (snd (delete_learning_item 1 sample_db))) = Inl (HTTPException 404)"
proof -
  let ?i = "\<lparr>li_id = 1, li_title = ''a'', li_content = ''x'', li_learning_date = 1000, li_user_id = 1\<rparr>"
  have w: "wf_db sample_db"
    by (simp add: wf_db_def sample_db_def)
  have m: "?i \<in> set (learning_items sample_db)"
    by (simp add: sample_db_def)
  from delete_learning_item_cascade [OF w m, of 100]
  have "get_review_schedules 1 (snd (delete_learning_item 1 sample_db)) = []"
    by auto
  with w show ?thesis
    by (simp add: delete_learning_item_def complete_review_def first_schedule_def sample_db_def)
qed

section \<open>Rounding\<close>

lemma round_half_even_error: "\<bar>of_int (round_half_even x) - x\<bar> \<le> 1 / 2"
proof -
  have "of_int \<lfloor>x\<rfloor> \<le> x" "x < of_int \<lfloor>x\<rfloor> + 1"
    by linarith+
  then show ?thesis
    by (auto simp: round_half_even_def Let_def)
qed

lemma round_half_even_unique:
  assumes "\<bar>x - of_int m\<bar> < 1 / 2"
  shows "round_half_even x = m"
proof -
  have "\<bar>of_int (round_half_even x) - x\<bar> \<le> 1 / 2"
    by (rule round_half_even_error)
  with assms have "\<bar>(of_int (round_half_even x) :: rat) - of_int m\<bar> < 1"
    by linarith
  then have "\<bar>(of_int (round_half_even x - m) :: rat)\<bar> < 1"
    by simp
  then have "\<bar>round_half_even x - m\<bar> < 1"
    by (metis of_int_abs of_int_less_1_iff)
  then show ?thesis by linarith
qed

lemma round_half_even_of_int [simp]: "round_half_even (of_int m) = m"
  by (rule round_half_even_unique) simp

lemma round_half_even_nonneg: "0 \<le> x \<Longrightarrow> 0 \<le> round_half_even x"
  by (auto simp: round_half_even_def Let_def)

section \<open>The binary exponent\<close>

lemma bitlen_positive:
  assumes "0 < n"
  shows "0 < bitlen n"
proof (rule ccontr)
  assume "\<not> 0 < bitlen n"
  then have "nat (bitlen n) = 0" by simp
  with bitlen_bounds [OF assms] show False by auto
qed

lemma expo_bounds:
  assumes "0 < x"
  shows "2 powi expo x \<le> x \<and> x < 2 powi (expo x + 1)"
proof (cases "1 \<le> x")
  case True
  define n where "n = \<lfloor>x\<rfloor>"
  from True have n: "0 < n" by (simp add: n_def)
  have nx: "of_int n \<le> x" "x < of_int n + 1"
    unfolding n_def by linarith+
  from bitlen_bounds [OF n] have b: "2 ^ nat (bitlen n - 1) \<le> n" "n < 2 ^ nat (bitlen n)"
    by simp_all
  from n have pos: "0 < bitlen n"
    by (rule bitlen_positive)
  have e: "expo x = bitlen n - 1"
    using True by (simp add: expo_def n_def)
  have "(2::rat) powi (bitlen n - 1) = of_int (2 ^ nat (bitlen n - 1))"
    using pos by (simp add: power_int_def)
  also have "\<dots> \<le> of_int n"
    using b(1) by (rule of_int_le_iff [THEN iffD2])
  finally have lo: "2 powi (bitlen n - 1) \<le> x"
    using nx(1) by linarith
  have "n + 1 \<le> 2 ^ nat (bitlen n)"
    using b(2) by linarith
  then have "(of_int (n + 1) :: rat) \<le> of_int (2 ^ nat (bitlen n))"
    by (rule of_int_le_iff [THEN iffD2])
  then have "of_int n + 1 \<le> (2::rat) ^ nat (bitlen n)"
    by simp
  moreover have "(2::rat) powi (bitlen n) = 2 ^ nat (bitlen n)"
    using pos by (simp add: power_int_def)
  ultimately have hi: "x < 2 powi (bitlen n)"
    using nx(2) by linarith
  from lo hi show ?thesis
    by (simp add: e)
next
  case False
  define y where "y = 1 / x"
  define m where "m = \<lfloor>y\<rfloor>"
  define k where "k = bitlen m - 1"
  from False assms have y1: "1 < y"
    by (simp add: y_def)
  then have m: "0 < m" by (simp add: m_def)
  have my: "of_int m \<le> y" "y < of_int m + 1"
    unfolding m_def by linarith+
  from bitlen_bounds [OF m] have b: "2 ^ nat k \<le> m" "m < 2 ^ nat (k + 1)"
    by (simp_all add: k_def)
  from bitlen_positive [OF m] have k0: "0 \<le> k"
    by (simp add: k_def)
  from b(1) have "(of_int (2 ^ nat k) :: rat) \<le> of_int m"
    by (rule of_int_le_iff [THEN iffD2])
  then have "(2::rat) ^ nat k \<le> of_int m"
    by simp
  with my(1) have ylo: "2 ^ nat k \<le> y"
    by linarith
  have "m + 1 \<le> 2 ^ nat (k + 1)"
    using b(2) by linarith
  then have "(of_int (m + 1) :: rat) \<le> of_int (2 ^ nat (k + 1))"
    by (rule of_int_le_iff [THEN iffD2])
  then have "of_int m + 1 \<le> (2::rat) ^ nat (k + 1)"
    by simp
  with my(2) have yhi: "y < 2 ^ nat (k + 1)"
    by linarith
  have xy: "x = 1 / y"
    by (simp add: y_def)
  have ypos: "0 < y" using y1 by simp
  from ylo ypos have xhi: "x \<le> 1 / 2 ^ nat k"
    unfolding xy by (simp add: frac_le)
  from yhi ypos have xlo: "1 / 2 ^ nat (k + 1) < x"
    unfolding xy by (simp add: frac_less2)
  have p1: "(2::rat) powi (- k) = 1 / 2 ^ nat k"
    using k0 by (simp add: power_int_def field_simps)
  have p2: "(2::rat) powi (- k - 1) = 1 / 2 ^ nat (k + 1)"
    using k0 by (simp add: power_int_def field_simps nat_add_distrib)
  have "(2::rat) powi (- k + 1) = 2 powi (- k) * 2 powi 1"
    by (rule power_int_add) simp
  then have p3: "(2::rat) powi (- k + 1) = 2 * (1 / 2 ^ nat k)"
    by (simp only: p1 power_int_1_right mult.commute)
  show ?thesis
  proof (cases "x * 2 ^ nat k = 1")
    case True
    then have xe: "x = 1 / 2 ^ nat k"
      by (simp add: field_simps)
    have e: "expo x = - k"
      using False True by (simp add: expo_def Let_def y_def m_def k_def)
    have "x \<le> x \<and> x < 2 * x"
      using assms by simp
    then show ?thesis
      unfolding e p1 p3 xe [symmetric] .
  next
    case neq: False
    then have "x \<noteq> 1 / 2 ^ nat k"
      by (auto simp: field_simps)
    with xhi have xhi': "x < 1 / 2 ^ nat k"
      by simp
    have e: "expo x = - k - 1"
      using False neq by (simp add: expo_def Let_def y_def m_def k_def)
    have "- k - 1 + 1 = - k" by simp
    then show ?thesis
      unfolding e using xlo xhi' p1 p2 by simp
  qed
qed

lemma power_int_2_mono: "a \<le> b \<Longrightarrow> (2::rat) powi a \<le> 2 powi b"
  by (rule power_int_increasing) simp_all

lemma power_int_2_less: "(2::rat) powi a < 2 powi b \<Longrightarrow> a < b"
  using power_int_2_mono [of b a] by (cases "a < b") auto

lemma expo_unique:
  assumes "2 powi e \<le> x" and "x < 2 powi (e + 1)"
  shows "expo x = e"
proof -
  have "(0::rat) < 2 powi e" by simp
  with assms(1) have pos: "0 < x" by linarith
  from expo_bounds [OF pos] have b: "2 powi expo x \<le> x" "x < 2 powi (expo x + 1)"
    by simp_all
  from b(1) assms(2) have "(2::rat) powi expo x < 2 powi (e + 1)" by linarith
  then have "expo x < e + 1" by (rule power_int_2_less)
  moreover from assms(1) b(2) have "(2::rat) powi e < 2 powi (expo x + 1)" by linarith
  then have "e < expo x + 1" by (rule power_int_2_less)
  ultimately show ?thesis by linarith
qed

section \<open>Rounding to binary64\<close>

lemma ulp_pos: "0 < ulp x"
  by (simp add: ulp_def)

lemma round_val_error: "\<bar>round_val x - x\<bar> \<le> ulp x / 2"
proof (cases "x = 0")
  case True
  then show ?thesis
    using ulp_pos [of x] by (simp add: round_val_def)
next
  case False
  let ?m = "round_half_even (x / ulp x)"
  have "\<bar>of_int ?m - x / ulp x\<bar> \<le> 1 / 2"
    by (rule round_half_even_error)
  then have "\<bar>of_int ?m - x / ulp x\<bar> * ulp x \<le> 1 / 2 * ulp x"
    using ulp_pos [of x] by (simp only: mult_le_cancel_right) simp
  moreover have "\<bar>of_int ?m - x / ulp x\<bar> * ulp x = \<bar>of_int ?m * ulp x - x\<bar>"
  proof -
    have "\<bar>of_int ?m - x / ulp x\<bar> * ulp x = \<bar>(of_int ?m - x / ulp x) * ulp x\<bar>"
      using ulp_pos [of x] by (simp add: abs_mult)
    also have "(of_int ?m - x / ulp x) * ulp x = of_int ?m * ulp x - x"
      using ulp_pos [of x] by (simp add: field_simps)
    finally show ?thesis .
  qed
  ultimately show ?thesis
    using False by (simp add: round_val_def)
qed

lemma round_val_nonneg:
  assumes "0 \<le> x"
  shows "0 \<le> round_val x"
proof (cases "x = 0")
  case True
  then show ?thesis by (simp add: round_val_def)
next
  case False
  from assms ulp_pos [of x] have "0 \<le> x / ulp x" by simp
  then have "0 \<le> round_half_even (x / ulp x)"
    by (rule round_half_even_nonneg)
  then show ?thesis
    using False ulp_pos [of x] by (simp add: round_val_def)
qed

lemma expo_normal:
  assumes "2 powi k \<le> \<bar>x\<bar>"
  shows "k \<le> expo \<bar>x\<bar>"
proof -
  have "(0::rat) < 2 powi k" by simp
  with assms have "0 < \<bar>x\<bar>" by linarith
  from expo_bounds [OF this] assms have "(2::rat) powi k < 2 powi (expo \<bar>x\<bar> + 1)"
    by linarith
  then have "k < expo \<bar>x\<bar> + 1" by (rule power_int_2_less)
  then show ?thesis by simp
qed

lemma expo_below:
  assumes "x \<noteq> 0" and "\<bar>x\<bar> < 2 powi k"
  shows "expo \<bar>x\<bar> < k"
proof -
  from assms(1) have "0 < \<bar>x\<bar>" by simp
  from expo_bounds [OF this] assms(2) have "(2::rat) powi expo \<bar>x\<bar> < 2 powi k"
    by linarith
  then show ?thesis by (rule power_int_2_less)
qed

lemma power_int_2_diff: "(2::rat) powi (a - b) = 2 powi a / 2 powi b"
  by (simp add: power_int_diff)

text \<open>In the normal range the rounding error is at most \<open>2 powi -53\<close> of the value.\<close>

lemma round_val_relative:
  assumes "2 powi (- 1022) \<le> \<bar>x\<bar>"
  shows "\<bar>round_val x - x\<bar> \<le> \<bar>x\<bar> / 2 ^ 53"
proof -
  have "(0::rat) < 2 powi (- 1022)" by simp
  with assms have pos: "0 < \<bar>x\<bar>" by linarith
  from expo_normal [OF assms] have e: "max (expo \<bar>x\<bar>) (- 1022) = expo \<bar>x\<bar>"
    by simp
  have "ulp x = 2 powi expo \<bar>x\<bar> / 2 powi 52"
    by (simp only: ulp_def e power_int_2_diff)
  also have "\<dots> = 2 powi expo \<bar>x\<bar> / 2 ^ 52"
    by simp
  also have "\<dots> \<le> \<bar>x\<bar> / 2 ^ 52"
    using expo_bounds [OF pos] by (simp add: divide_right_mono)
  finally have "ulp x / 2 \<le> \<bar>x\<bar> / 2 ^ 53"
    by simp
  with round_val_error [of x] show ?thesis
    by linarith
qed

text \<open>Below \<open>2 powi k\<close> the rounding error is at most \<open>2 powi (k - 54)\<close>.\<close>

lemma round_val_absolute:
  assumes "\<bar>x\<bar> < 2 powi k" and "- 1021 \<le> k"
  shows "\<bar>round_val x - x\<bar> \<le> 2 powi (k - 54)"
proof (cases "x = 0")
  case True
  then show ?thesis by (simp add: round_val_def)
next
  case False
  from expo_below [OF False assms(1)] assms(2)
  have "max (expo \<bar>x\<bar>) (- 1022) - 52 \<le> k - 53"
    by simp
  then have "ulp x \<le> 2 powi (k - 53)"
    unfolding ulp_def by (rule power_int_2_mono)
  moreover have "(2::rat) powi (k - 53) / 2 = 2 powi (k - 54)"
  proof -
    have "(2::rat) powi (k - 53 - 1) = 2 powi (k - 53) / 2 powi 1"
      by (rule power_int_2_diff)
    then show ?thesis by simp
  qed
  ultimately have "ulp x / 2 \<le> 2 powi (k - 54)"
    by linarith
  with round_val_error [of x] show ?thesis
    by linarith
qed

text \<open>
  Evaluation of a rounding: with the spacing \<open>u\<close> of the binade of \<open>x\<close> known, the
  result is the multiple of \<open>u\<close> within half a step of \<open>x\<close>.
\<close>

lemma round_val_eqI:
  assumes u: "u = 2 powi k" and k: "- 1074 \<le> k"
    and lo: "2 ^ 52 * u \<le> \<bar>x\<bar>" and hi: "\<bar>x\<bar> < 2 ^ 53 * u"
    and m: "\<bar>x / u - of_int m\<bar> < 1 / 2"
  shows "round_val x = of_int m * u"
proof -
  have upos: "0 < u" by (simp add: u)
  with lo have x0: "x \<noteq> 0"
    by (auto simp: not_le mult_pos_pos)
  have "(2::rat) powi (k + 52) = 2 powi k * 2 powi 52"
    by (rule power_int_add) simp
  then have a: "(2::rat) powi (k + 52) = 2 ^ 52 * u"
    by (simp add: u)
  have "(2::rat) powi (k + 52 + 1) = 2 powi k * 2 powi 53"
    by (simp add: power_int_add)
  then have b: "(2::rat) powi (k + 52 + 1) = 2 ^ 53 * u"
    by (simp add: u)
  have "expo \<bar>x\<bar> = k + 52"
    by (rule expo_unique) (simp_all only: a b lo hi)
  with k have "ulp x = u"
    by (simp add: ulp_def u)
  with x0 round_half_even_unique [OF m] show ?thesis
    by (simp add: round_val_def)
qed

lemma round_val_small:
  assumes "j \<le> 1074"
    and "2 ^ 52 \<le> \<bar>x\<bar> * 2 ^ j" and "\<bar>x\<bar> * 2 ^ j < 2 ^ 53"
    and "\<bar>x * 2 ^ j - of_int m\<bar> < 1 / 2"
  shows "round_val x = of_int m / 2 ^ j"
proof -
  have u: "1 / 2 ^ j = (2::rat) powi (- int j)"
    by (simp add: power_int_def field_simps)
  have "round_val x = of_int m * (1 / 2 ^ j)"
  proof (rule round_val_eqI [OF u])
    show "- 1074 \<le> - int j" using assms(1) by simp
    show "2 ^ 52 * (1 / 2 ^ j) \<le> \<bar>x\<bar>"
      using assms(2) by (simp add: field_simps)
    show "\<bar>x\<bar> < 2 ^ 53 * (1 / 2 ^ j)"
      using assms(3) by (simp add: field_simps)
    show "\<bar>x / (1 / 2 ^ j) - of_int m\<bar> < 1 / 2"
      using assms(4) by simp
  qed
  then show ?thesis by simp
qed

lemma round_val_large:
  assumes "2 ^ 52 * 2 ^ j \<le> \<bar>x\<bar>" and "\<bar>x\<bar> < 2 ^ 53 * 2 ^ j"
    and "\<bar>x / 2 ^ j - of_int m\<bar> < 1 / 2"
  shows "round_val x = of_int m * 2 ^ j"
proof -
  have u: "2 ^ j = (2::rat) powi (int j)"
    by simp
  show ?thesis
    by (rule round_val_eqI [OF u]) (use assms in simp_all)
qed

lemma round_double_Fin:
  "\<bar>round_val x\<bar> < 2 ^ 1024 \<Longrightarrow> round_double x = Fin (round_val x)"
  by (auto simp: round_double_def Let_def)

section \<open>Bounds on the float operations of the endpoints\<close>

lemma round_val_le: "\<bar>round_val x\<bar> \<le> \<bar>x\<bar> + \<bar>x\<bar> / 2 ^ 53 + 1"
proof (cases "2 powi (- 1022) \<le> \<bar>x\<bar>")
  case True
  from round_val_relative [OF True] show ?thesis
    by linarith
next
  case False
  then have "\<bar>x\<bar> < 2 powi (- 1021)"
    using power_int_2_mono [of "- 1022" "- 1021"] by linarith
  then have "\<bar>round_val x - x\<bar> \<le> 2 powi (- 1021 - 54)"
    by (rule round_val_absolute) simp
  moreover have "(2::rat) powi (- 1021 - 54) \<le> 2 powi 0"
    by (rule power_int_2_mono) simp
  ultimately have "\<bar>round_val x - x\<bar> \<le> 1"
    by simp
  moreover have "0 \<le> \<bar>x\<bar> / 2 ^ 53"
    by simp
  ultimately show ?thesis
    by linarith
qed

lemma round_val_lower:
  assumes "1 / 2 \<le> x"
  shows "x - x / 2 ^ 53 \<le> round_val x" and "round_val x \<le> x + x / 2 ^ 53"
proof -
  have "(2::rat) powi (- 1022) \<le> 2 powi (- 1)"
    by (rule power_int_2_mono) simp
  also have "(2::rat) powi (- 1) = 1 / 2"
    by (simp add: power_int_def)
  finally have "2 powi (- 1022) \<le> \<bar>x\<bar>"
    using assms by linarith
  from round_val_relative [OF this] assms
  show "x - x / 2 ^ 53 \<le> round_val x" and "round_val x \<le> x + x / 2 ^ 53"
    by linarith+
qed

text \<open>The microseconds of a float number of hours are within a microsecond of the exact product.\<close>

lemma py_trunc_frac: "\<bar>x - of_int (py_trunc x)\<bar> < 1"
  unfolding py_trunc_def by (cases "0 \<le> x") (simp_all, linarith+)

lemma hours_us_error: "\<bar>of_int (hours_us x) - 3600000000 * x\<bar> < 1"
proof (cases "x - of_int (py_trunc x) = 0")
  case True
  then have "x = of_int (py_trunc x)" by simp
  then have "of_int (hours_us x) = 3600000000 * x"
    using True by (simp add: hours_us_def Let_def us_per_hour_def)
  then show ?thesis by simp
next
  case False
  define fp where "fp = x - of_int (py_trunc x)"
  define dn where "dn = round_val (3600000000 * fp)"
  define sm where "sm = py_trunc x * 3600000000"
  have fp1: "\<bar>fp\<bar> < 1"
    unfolding fp_def by (rule py_trunc_frac)
  then have "\<bar>3600000000 * fp\<bar> < 3600000000"
    by (simp add: abs_mult)
  also have "(3600000000::rat) < 2 powi 32"
    by simp
  finally have "\<bar>dn - 3600000000 * fp\<bar> \<le> 2 powi (32 - 54)"
    unfolding dn_def by (rule round_val_absolute) simp
  also have "(2::rat) powi (32 - 54) = 1 / 2 ^ 22"
    by (simp add: power_int_def field_simps)
  finally have d: "\<bar>dn - 3600000000 * fp\<bar> \<le> 1 / 2 ^ 22" .
  have h: "hours_us x = round_half_even (of_int sm + dn)"
    using False by (simp add: hours_us_def Let_def us_per_hour_def fp_def dn_def sm_def)
  have r: "\<bar>of_int (round_half_even (of_int sm + dn)) - (of_int sm + dn)\<bar> \<le> 1 / 2"
    by (rule round_half_even_error)
  have x: "3600000000 * x = of_int sm + 3600000000 * fp"
    by (simp add: sm_def fp_def algebra_simps)
  have "(1::rat) / 2 ^ 22 < 1 / 2"
    by simp
  with d r have "\<bar>of_int (round_half_even (of_int sm + dn)) - (of_int sm + 3600000000 * fp)\<bar> < 1"
    by linarith
  then show ?thesis
    unfolding h x .
qed

text \<open>
  Two entries of the base table, the second at least twice the first, stay in
  order through the float product with a factor of at least a half and through the
  conversion to microseconds.
\<close>

lemma interval_step:
  assumes f: "1 / 2 \<le> f" and b: "1 \<le> b" and b': "2 * b \<le> b'"
  shows "round_val (b * f) < round_val (b' * f)"
    and "hours_us (round_val (b * f)) < hours_us (round_val (b' * f))"
    and "0 < hours_us (round_val (b * f))"
proof -
  define X where "X = b * f"
  define X' where "X' = b' * f"
  have X: "1 / 2 \<le> X"
  proof -
    have "1 * (1 / 2) \<le> b * f"
      using b f by (intro mult_mono) simp_all
    then show ?thesis by (simp add: X_def)
  qed
  have XX': "2 * X \<le> X'"
  proof -
    have "(2 * b) * f \<le> b' * f"
      using b' f by (intro mult_right_mono) simp_all
    then show ?thesis by (simp add: X_def X'_def)
  qed
  from X XX' have X': "1 / 2 \<le> X'" by linarith
  note e = round_val_lower [OF X]
  note e' = round_val_lower [OF X']
  have gap: "round_val X + 49 / 100 \<le> round_val X'"
    using e(2) e'(1) X XX' by (simp add: field_simps)
  then show "round_val (b * f) < round_val (b' * f)"
    by (simp add: X_def X'_def)
  have h: "\<bar>of_int (hours_us (round_val X)) - 3600000000 * round_val X\<bar> < 1"
    "\<bar>of_int (hours_us (round_val X')) - 3600000000 * round_val X'\<bar> < 1"
    by (rule hours_us_error)+
  with gap have "(of_int (hours_us (round_val X)) :: rat) < of_int (hours_us (round_val X'))"
    by linarith
  then show "hours_us (round_val (b * f)) < hours_us (round_val (b' * f))"
    by (simp add: X_def X'_def)
  have "49 / 100 \<le> round_val X"
    using e(1) X by (simp add: field_simps)
  with h(1) have "(0::rat) < of_int (hours_us (round_val X))"
    by linarith
  then show "0 < hours_us (round_val (b * f))"
    by (simp add: X_def)
qed

section \<open>Values of the float operations on the constants of the source\<close>

lemma round_val_tenth: "round_val (1 / 10) = 3602879701896397 / 36028797018963968"
  using round_val_small [where x = "1 / 10" and j = 56 and m = 7205759403792794]
  by simp

lemma float_literal_tenth: "float_literal (1 / 10) = Fin (3602879701896397 / 36028797018963968)"
  by (simp add: float_literal_def round_double_def round_val_tenth)

lemma round_val_base:
  "round_val 1 = 1" "round_val 24 = 24" "round_val 72 = 72"
  "round_val 168 = 168" "round_val 336 = 336" "round_val 720 = 720"
  using round_val_small [where x = 1 and j = 52 and m = "2 ^ 52"]
    round_val_small [where x = 24 and j = 48 and m = "24 * 2 ^ 48"]
    round_val_small [where x = 72 and j = 46 and m = "72 * 2 ^ 46"]
    round_val_small [where x = 168 and j = 45 and m = "168 * 2 ^ 45"]
    round_val_small [where x = 336 and j = 44 and m = "336 * 2 ^ 44"]
    round_val_small [where x = 720 and j = 43 and m = "720 * 2 ^ 43"]
  by simp_all

lemma float_of_int_base:
  "float_of_int 1 = Inr (Fin 1)" "float_of_int 24 = Inr (Fin 24)" "float_of_int 72 = Inr (Fin 72)"
  "float_of_int 168 = Inr (Fin 168)" "float_of_int 336 = Inr (Fin 336)"
  "float_of_int 720 = Inr (Fin 720)"
  by (simp_all add: float_of_int_def round_double_def round_val_base)

lemma float_of_int_zero: "float_of_int 0 = Inr (Fin 0)"
  by (simp add: float_of_int_def round_double_def round_val_def)

section \<open>The factor and the intervals of \<open>calculate_reviews\<close>\<close>

lemma round_double_nonneg:
  assumes "0 \<le> x"
  shows "round_double x = PosInf \<or> (round_double x = Fin (round_val x) \<and> round_val x < 2 ^ 1024)"
  using round_val_nonneg [OF assms] by (auto simp: round_double_def Let_def)

lemma round_double_Fin_iff:
  "round_double x = Fin y \<longleftrightarrow> y = round_val x \<and> \<bar>round_val x\<bar> < 2 ^ 1024"
  by (auto simp: round_double_def Let_def)

lemma float_of_int_nonneg:
  assumes "0 \<le> n"
  shows "float_of_int n = Inl OverflowError \<or>
         (float_of_int n = Inr (Fin (round_val (of_int n))) \<and> 0 \<le> round_val (of_int n))"
proof -
  from assms have n: "(0::rat) \<le> of_int n" by simp
  from round_double_nonneg [OF n] round_val_nonneg [OF n] show ?thesis
    by (auto simp: float_of_int_def)
qed

lemma factor_cases:
  assumes "0 \<le> y"
  shows "fadd (Fin 1) (fmul (float_literal (1 / 10)) (Fin y)) = PosInf \<or>
         (\<exists>f. fadd (Fin 1) (fmul (float_literal (1 / 10)) (Fin y)) = Fin f \<and> 1 / 2 \<le> f)"
proof -
  let ?c = "3602879701896397 / 36028797018963968 :: rat"
  from assms have cy: "0 \<le> ?c * y" by simp
  have m: "fmul (float_literal (1 / 10)) (Fin y) = round_double (?c * y)"
    by (simp add: float_literal_tenth)
  from round_double_nonneg [OF cy] show ?thesis
  proof
    assume "round_double (?c * y) = PosInf"
    then show ?thesis by (simp add: m)
  next
    assume p: "round_double (?c * y) = Fin (round_val (?c * y)) \<and> round_val (?c * y) < 2 ^ 1024"
    define q where "q = round_val (?c * y)"
    have q: "0 \<le> q" unfolding q_def by (rule round_val_nonneg [OF cy])
    then have q1: "1 / 2 \<le> 1 + q" and q0: "0 \<le> 1 + q" by simp_all
    have a: "fadd (Fin 1) (fmul (float_literal (1 / 10)) (Fin y)) = round_double (1 + q)"
      using p by (simp add: m q_def)
    from round_val_lower(1) [OF q1] q have "1 / 2 \<le> round_val (1 + q)"
      by (simp add: field_simps)
    with round_double_nonneg [OF q0] show ?thesis
      unfolding a by auto
  qed
qed

lemma spec_factor_cases:
  assumes "0 \<le> n"
  shows "spec_factor n = Inl OverflowError \<or> spec_factor n = Inr PosInf \<or>
         (\<exists>f. spec_factor n = Inr (Fin f) \<and> 1 / 2 \<le> f)"
  using float_of_int_nonneg [OF assms]
proof
  assume "float_of_int n = Inl OverflowError"
  then show ?thesis by (simp add: spec_factor_def)
next
  assume a: "float_of_int n = Inr (Fin (round_val (of_int n))) \<and> 0 \<le> round_val (of_int n)"
  then have "0 \<le> round_val (of_int n)" by simp
  from factor_cases [OF this] a show ?thesis
    by (auto simp: spec_factor_def)
qed

lemma adjusted_intervals_factor:
  "adjusted_intervals n =
     bind_err (spec_factor n) (\<lambda>F. Inr (map (\<lambda>b. fmul (Fin (of_int b)) F) BASE_INTERVALS))"
  by (cases "float_of_int n")
    (simp_all add: adjusted_intervals_def spec_factor_def BASE_INTERVALS_def float_of_int_base)

section \<open>The structure of the result of \<open>calculate_reviews\<close>\<close>

lemma collect_map_cases:
  assumes "\<forall>x \<in> set xs. g x = Inl OverflowError \<or> g x = Inr (h x)"
  shows "collect (map g xs) = Inl OverflowError \<or>
         (collect (map g xs) = Inr (map h xs) \<and> (\<forall>x \<in> set xs. g x = Inr (h x)))"
  using assms
proof (induction xs)
  case Nil
  then show ?case by simp
next
  case (Cons x xs)
  then have "g x = Inl OverflowError \<or> g x = Inr (h x)" by simp
  then show ?case
  proof
    assume "g x = Inl OverflowError"
    then show ?thesis by simp
  next
    assume gx: "g x = Inr (h x)"
    from Cons have "collect (map g xs) = Inl OverflowError \<or>
         (collect (map g xs) = Inr (map h xs) \<and> (\<forall>x \<in> set xs. g x = Inr (h x)))"
      by simp
    then show ?thesis
      using gx by auto
  qed
qed

lemma collect_map_Inr:
  "\<forall>x \<in> set xs. g x = Inr (h x) \<Longrightarrow> collect (map g xs) = Inr (map h xs)"
  by (induction xs) simp_all

lemma microseconds_to_delta_cases:
  "microseconds_to_delta us = Inl OverflowError \<or> microseconds_to_delta us = Inr us"
  by (simp add: microseconds_to_delta_def)

lemma datetime_add_cases:
  "datetime_add T us = Inl OverflowError \<or> datetime_add T us = Inr (T + us)"
  by (simp add: datetime_add_def)

lemma review_date_cases:
  assumes "0 \<le> x"
  shows "bind_err (timedelta_hours (round_double x)) (datetime_add T) = Inl OverflowError \<or>
         (round_double x = Fin (round_val x) \<and>
          bind_err (timedelta_hours (round_double x)) (datetime_add T) =
            Inr (T + hours_us (round_val x)))"
  using round_double_nonneg [OF assms]
proof
  assume "round_double x = PosInf"
  then show ?thesis by simp
next
  assume a: "round_double x = Fin (round_val x) \<and> round_val x < 2 ^ 1024"
  from microseconds_to_delta_cases [of "hours_us (round_val x)"] show ?thesis
  proof
    assume "microseconds_to_delta (hours_us (round_val x)) = Inl OverflowError"
    with a show ?thesis by simp
  next
    assume "microseconds_to_delta (hours_us (round_val x)) = Inr (hours_us (round_val x))"
    with a datetime_add_cases [of T "hours_us (round_val x)"] show ?thesis
      by auto
  qed
qed

lemma base_positive: "b \<in> set BASE_INTERVALS \<Longrightarrow> 1 \<le> b"
  by (auto simp: BASE_INTERVALS_def)

lemma calculate_reviews_unfold:
  assumes "fromisoformat s = Some T" and "spec_factor n = Inr F"
  shows "calculate_reviews fromisoformat s n =
     (case collect (map (\<lambda>b. bind_err (timedelta_hours (fmul (Fin (of_int b)) F)) (datetime_add T))
                      BASE_INTERVALS) of
        Inl ValueError \<Rightarrow> Inl (HTTPException 400)
      | Inl e \<Rightarrow> Inl e
      | Inr review_dates \<Rightarrow>
          Inr (map (\<lambda>(i, (review_date, interval)).
                      \<lparr>re_review_number = int i + 1,
                       re_review_date = review_date,
                       re_interval_hours = interval,
                       re_completed = False,
                       re_is_deleted = False\<rparr>)
                 (enumerate 0 (zip review_dates
                    (map (\<lambda>b. fmul (Fin (of_int b)) F) BASE_INTERVALS)))))"
  using assms
  by (simp add: calculate_reviews_def adjusted_intervals_factor comp_def
      split: sum.splits error.splits)

lemma spec_review_schedule_eq:
  assumes "\<forall>b \<in> set BASE_INTERVALS. fmul (Fin (of_int b)) (Fin f) = Fin (round_val (of_int b * f))"
  shows "map (\<lambda>(i, (review_date, interval)).
                      \<lparr>re_review_number = int i + 1,
                       re_review_date = review_date,
                       re_interval_hours = interval,
                       re_completed = False,
                       re_is_deleted = False\<rparr>)
                 (enumerate 0 (zip (map (\<lambda>b. T + hours_us (round_val (of_int b * f))) BASE_INTERVALS)
                    (map (\<lambda>b. fmul (Fin (of_int b)) (Fin f)) BASE_INTERVALS)))
         = spec_review_schedule T f"
  using assms by (simp add: spec_review_schedule_def BASE_INTERVALS_def)

lemma calculate_reviews_success:
  assumes p: "fromisoformat s = Some T" and F: "spec_factor n = Inr (Fin f)"
    and ok: "\<forall>b \<in> set BASE_INTERVALS.
               bind_err (timedelta_hours (fmul (Fin (of_int b)) (Fin f))) (datetime_add T) =
                 Inr (T + hours_us (round_val (of_int b * f)))"
    and fin: "\<forall>b \<in> set BASE_INTERVALS.
               fmul (Fin (of_int b)) (Fin f) = Fin (round_val (of_int b * f))"
  shows "calculate_reviews fromisoformat s n = Inr (spec_review_schedule T f)"
  unfolding calculate_reviews_unfold [where fromisoformat = fromisoformat and s = s, OF p F] collect_map_Inr [OF ok]
  by (simp only: sum.case spec_review_schedule_eq [OF fin])

lemma calculate_reviews_cases:
  assumes p: "fromisoformat s = Some T" and n: "0 \<le> n"
  shows "calculate_reviews fromisoformat s n = Inl OverflowError \<or>
         (\<exists>f. spec_factor n = Inr (Fin f) \<and> 1 / 2 \<le> f \<and>
              calculate_reviews fromisoformat s n = Inr (spec_review_schedule T f))"
  using spec_factor_cases [OF n]
proof (elim disjE exE conjE)
  assume "spec_factor n = Inl OverflowError"
  then show ?thesis
    using p by (simp add: calculate_reviews_def adjusted_intervals_factor)
next
  assume F: "spec_factor n = Inr PosInf"
  show ?thesis
    unfolding calculate_reviews_unfold [where fromisoformat = fromisoformat and s = s, OF p F] by (simp add: BASE_INTERVALS_def)
next
  fix f
  assume F: "spec_factor n = Inr (Fin f)" and f: "1 / 2 \<le> f"
  let ?g = "\<lambda>b. bind_err (timedelta_hours (fmul (Fin (of_int b)) (Fin f))) (datetime_add T)"
  let ?h = "\<lambda>b. T + hours_us (round_val (of_int b * f))"
  have step: "?g b = Inl OverflowError \<or>
      (fmul (Fin (of_int b)) (Fin f) = Fin (round_val (of_int b * f)) \<and> ?g b = Inr (?h b))"
    if "b \<in> set BASE_INTERVALS" for b
  proof -
    from base_positive [OF that] f have "0 \<le> of_int b * f" by simp
    from review_date_cases [OF this, of T] show ?thesis by simp
  qed
  then have "\<forall>b \<in> set BASE_INTERVALS. ?g b = Inl OverflowError \<or> ?g b = Inr (?h b)"
    by blast
  from collect_map_cases [OF this] show ?thesis
  proof
    assume "collect (map ?g BASE_INTERVALS) = Inl OverflowError"
    then show ?thesis
      unfolding calculate_reviews_unfold [where fromisoformat = fromisoformat and s = s, OF p F] by simp
  next
    assume "collect (map ?g BASE_INTERVALS) = Inr (map ?h BASE_INTERVALS) \<and>
      (\<forall>b \<in> set BASE_INTERVALS. ?g b = Inr (?h b))"
    then have ok: "\<forall>b \<in> set BASE_INTERVALS. ?g b = Inr (?h b)" by simp
    have fin: "\<forall>b \<in> set BASE_INTERVALS.
        fmul (Fin (of_int b)) (Fin f) = Fin (round_val (of_int b * f))"
    proof
      fix b assume b: "b \<in> set BASE_INTERVALS"
      with ok have "?g b = Inr (?h b)" by simp
      with step [OF b] show "fmul (Fin (of_int b)) (Fin f) = Fin (round_val (of_int b * f))"
        by auto
    qed
    from calculate_reviews_success [where fromisoformat = fromisoformat and s = s, OF p F ok fin] F f show ?thesis
      by blast
  qed
qed

section \<open>The review dates of \<open>calculate_reviews\<close>\<close>

lemma base_chain:
  assumes f: "1 / 2 \<le> f"
  shows "round_val (1 * f) < round_val (24 * f)" "round_val (24 * f) < round_val (72 * f)"
    "round_val (72 * f) < round_val (168 * f)" "round_val (168 * f) < round_val (336 * f)"
    "round_val (336 * f) < round_val (720 * f)"
    "hours_us (round_val (1 * f)) < hours_us (round_val (24 * f))"
    "hours_us (round_val (24 * f)) < hours_us (round_val (72 * f))"
    "hours_us (round_val (72 * f)) < hours_us (round_val (168 * f))"
    "hours_us (round_val (168 * f)) < hours_us (round_val (336 * f))"
    "hours_us (round_val (336 * f)) < hours_us (round_val (720 * f))"
    "0 < hours_us (round_val (1 * f))" "0 \<le> round_val (1 * f)"
proof -
  show "round_val (1 * f) < round_val (24 * f)" by (rule interval_step(1) [OF f]) simp_all
  show "round_val (24 * f) < round_val (72 * f)" by (rule interval_step(1) [OF f]) simp_all
  show "round_val (72 * f) < round_val (168 * f)" by (rule interval_step(1) [OF f]) simp_all
  show "round_val (168 * f) < round_val (336 * f)" by (rule interval_step(1) [OF f]) simp_all
  show "round_val (336 * f) < round_val (720 * f)" by (rule interval_step(1) [OF f]) simp_all
  show "hours_us (round_val (1 * f)) < hours_us (round_val (24 * f))"
    by (rule interval_step(2) [OF f]) simp_all
  show "hours_us (round_val (24 * f)) < hours_us (round_val (72 * f))"
    by (rule interval_step(2) [OF f]) simp_all
  show "hours_us (round_val (72 * f)) < hours_us (round_val (168 * f))"
    by (rule interval_step(2) [OF f]) simp_all
  show "hours_us (round_val (168 * f)) < hours_us (round_val (336 * f))"
    by (rule interval_step(2) [OF f]) simp_all
  show "hours_us (round_val (336 * f)) < hours_us (round_val (720 * f))"
    by (rule interval_step(2) [OF f]) simp_all
  show "0 < hours_us (round_val (1 * f))"
    by (rule interval_step(3) [OF f, where b' = 2]) simp_all
  from f have "0 \<le> 1 * f" by simp
  then show "0 \<le> round_val (1 * f)" by (rule round_val_nonneg)
qed

lemma base_bounds:
  assumes f: "1 / 2 \<le> f" and b: "b \<in> set BASE_INTERVALS"
  shows "0 \<le> round_val (of_int b * f)" "round_val (of_int b * f) \<le> round_val (720 * f)"
    "0 < hours_us (round_val (of_int b * f))"
    "hours_us (round_val (of_int b * f)) \<le> hours_us (round_val (720 * f))"
proof -
  note c = base_chain [OF f]
  from b have "b = 1 \<or> b = 24 \<or> b = 72 \<or> b = 168 \<or> b = 336 \<or> b = 720"
    by (simp add: BASE_INTERVALS_def)
  then have "0 \<le> round_val (of_int b * f) \<and> round_val (of_int b * f) \<le> round_val (720 * f) \<and>
    0 < hours_us (round_val (of_int b * f)) \<and>
    hours_us (round_val (of_int b * f)) \<le> hours_us (round_val (720 * f))"
    using c by auto
  then show "0 \<le> round_val (of_int b * f)" "round_val (of_int b * f) \<le> round_val (720 * f)"
    "0 < hours_us (round_val (of_int b * f))"
    "hours_us (round_val (of_int b * f)) \<le> hours_us (round_val (720 * f))"
    by simp_all
qed

lemma microseconds_to_delta_ok:
  assumes "0 \<le> us" and "us \<le> datetime_max"
  shows "microseconds_to_delta us = Inr us"
proof -
  from assms(1) have "0 \<le> us div 86400000000"
    by (simp add: pos_imp_zdiv_nonneg_iff)
  moreover from assms(2) have "us div 86400000000 \<le> datetime_max div 86400000000"
    by (rule zdiv_mono1) simp
  moreover have "datetime_max div 86400000000 \<le> 999999999"
    by (simp add: datetime_max_def)
  ultimately show ?thesis
    by (simp add: microseconds_to_delta_def)
qed

lemma review_date_ok:
  assumes "0 \<le> T" and "0 \<le> us" and "T + us \<le> datetime_max"
  shows "bind_err (microseconds_to_delta us) (datetime_add T) = Inr (T + us)"
proof -
  from assms have "us \<le> datetime_max" by simp
  from microseconds_to_delta_ok [OF assms(2) this] assms show ?thesis
    by (simp add: datetime_add_def)
qed

lemma spec_factor_lower:
  assumes "0 \<le> n" and "spec_factor n = Inr (Fin f)"
  shows "1 / 2 \<le> f"
  using spec_factor_cases [OF assms(1)] assms(2) by auto

lemma calculate_reviews_in_range:
  assumes p: "fromisoformat s = Some T" and n: "0 \<le> n" and T: "0 \<le> T"
    and F: "spec_factor n = Inr (Fin f)"
    and fin: "round_val (720 * f) < 2 ^ 1024"
    and last: "T + hours_us (round_val (720 * f)) \<le> datetime_max"
  shows "calculate_reviews fromisoformat s n = Inr (spec_review_schedule T f)"
proof (rule calculate_reviews_success [where fromisoformat = fromisoformat and s = s, OF p F])
  note f = spec_factor_lower [OF n F]
  show fins: "\<forall>b \<in> set BASE_INTERVALS.
      fmul (Fin (of_int b)) (Fin f) = Fin (round_val (of_int b * f))"
  proof
    fix b assume b: "b \<in> set BASE_INTERVALS"
    from base_bounds(1,2) [OF f b] fin have "\<bar>round_val (of_int b * f)\<bar> < 2 ^ 1024"
      by linarith
    then show "fmul (Fin (of_int b)) (Fin f) = Fin (round_val (of_int b * f))"
      by (simp add: round_double_Fin)
  qed
  show "\<forall>b \<in> set BASE_INTERVALS.
      bind_err (timedelta_hours (fmul (Fin (of_int b)) (Fin f))) (datetime_add T) =
        Inr (T + hours_us (round_val (of_int b * f)))"
  proof
    fix b assume b: "b \<in> set BASE_INTERVALS"
    from base_bounds(3,4) [OF f b] last
    have "0 \<le> hours_us (round_val (of_int b * f))"
      and "T + hours_us (round_val (of_int b * f)) \<le> datetime_max"
      by linarith+
    from review_date_ok [OF T this] fins b
    show "bind_err (timedelta_hours (fmul (Fin (of_int b)) (Fin f))) (datetime_add T) =
        Inr (T + hours_us (round_val (of_int b * f)))"
      by simp
  qed
qed

lemma round_val_zero: "round_val 0 = 0"
  by (simp add: round_val_def)

lemma spec_factor_zero: "spec_factor 0 = Inr (Fin 1)"
  by (simp add: spec_factor_def float_of_int_zero float_literal_tenth round_double_def
      round_val_base round_val_zero)

lemma hours_us_of_int: "hours_us (of_int k) = k * 3600000000"
  by (simp add: hours_us_def py_trunc_def us_per_hour_def)

lemma spec_review_schedule_one:
  "spec_review_schedule T 1 =
     [\<lparr>re_review_number = 1, re_review_date = T + 1 * 3600000000, re_interval_hours = Fin 1,
       re_completed = False, re_is_deleted = False\<rparr>,
      \<lparr>re_review_number = 2, re_review_date = T + 24 * 3600000000, re_interval_hours = Fin 24,
       re_completed = False, re_is_deleted = False\<rparr>,
      \<lparr>re_review_number = 3, re_review_date = T + 72 * 3600000000, re_interval_hours = Fin 72,
       re_completed = False, re_is_deleted = False\<rparr>,
      \<lparr>re_review_number = 4, re_review_date = T + 168 * 3600000000, re_interval_hours = Fin 168,
       re_completed = False, re_is_deleted = False\<rparr>,
      \<lparr>re_review_number = 5, re_review_date = T + 336 * 3600000000, re_interval_hours = Fin 336,
       re_completed = False, re_is_deleted = False\<rparr>,
      \<lparr>re_review_number = 6, re_review_date = T + 720 * 3600000000, re_interval_hours = Fin 720,
       re_completed = False, re_is_deleted = False\<rparr>]"
proof -
  have h: "hours_us 1 = 1 * 3600000000" "hours_us 24 = 24 * 3600000000"
    "hours_us 72 = 72 * 3600000000" "hours_us 168 = 168 * 3600000000"
    "hours_us 336 = 336 * 3600000000" "hours_us 720 = 720 * 3600000000"
    using hours_us_of_int [of 1] hours_us_of_int [of 24] hours_us_of_int [of 72]
      hours_us_of_int [of 168] hours_us_of_int [of 336] hours_us_of_int [of 720]
    by simp_all
  show ?thesis
    by (simp add: spec_review_schedule_def BASE_INTERVALS_def round_val_base h)
qed

lemma calculate_reviews_zero:
  assumes p: "fromisoformat s = Some T" and T: "0 \<le> T"
    and last: "T + 720 * 3600000000 \<le> datetime_max"
  shows "calculate_reviews fromisoformat s 0 = Inr (spec_review_schedule T 1)"
proof (rule calculate_reviews_in_range [where fromisoformat = fromisoformat and s = s,
      OF p _ T spec_factor_zero])
  show "(0::int) \<le> 0" by simp
  show "round_val (720 * 1) < 2 ^ 1024"
    by (simp add: round_val_base)
  have "hours_us (round_val (720 * 1)) = 720 * 3600000000"
    using hours_us_of_int [of 720] by (simp add: round_val_base)
  with last show "T + hours_us (round_val (720 * 1)) \<le> datetime_max"
    by simp
qed

lemma sample_parser_values:
  "sample_parser ''2024-01-01T00:00:00'' = Some 63839664000000000"
  "sample_parser ''9999-12-31T23:30:00'' = Some 315537895800000000"
  by (simp_all add: sample_parser_def)

lemma calculate_reviews_sample:
  "calculate_reviews sample_parser ''2024-01-01T00:00:00'' 0 =
     Inr (spec_review_schedule 63839664000000000 1)"
  by (rule calculate_reviews_zero [where fromisoformat = sample_parser
        and s = "''2024-01-01T00:00:00''", OF sample_parser_values(1)])
    (simp_all add: datetime_max_def)

text \<open>
  C1 (as amended). For a date string that parses to \<open>T\<close> and a repetition number
  \<open>n \<ge> 0\<close>, \<open>calculate_reviews\<close> either raises \<open>OverflowError\<close> or returns the six
  records of \<open>spec_review_schedule\<close>: numbers 1 to 6, the interval \<open>base\<^sub>i \<times> (1 + 0.1 \<times> n)\<close>
  in float arithmetic, the date \<open>T\<close> plus that interval, \<open>completed\<close> and \<open>is_deleted\<close>
  false. It returns them whenever the factor and the last interval are finite and the
  last date is not after \<open>datetime.max\<close>. For \<open>n = 0\<close> the dates are \<open>T\<close> plus 1, 24, 72,
  168, 336 and 720 hours exactly.
\<close>

theorem calculate_reviews_schedule:
  assumes "fromisoformat s = Some T" and "0 \<le> n"
  shows "(calculate_reviews fromisoformat s n = Inl OverflowError \<or>
          (\<exists>f. spec_factor n = Inr (Fin f) \<and>
               calculate_reviews fromisoformat s n = Inr (spec_review_schedule T f))) \<and>
         (\<forall>f. 0 \<le> T \<and> spec_factor n = Inr (Fin f) \<and> round_val (720 * f) < 2 ^ 1024 \<and>
              T + hours_us (round_val (720 * f)) \<le> datetime_max \<longrightarrow>
              calculate_reviews fromisoformat s n = Inr (spec_review_schedule T f)) \<and>
         (n = 0 \<and> 0 \<le> T \<and> T + 720 * 3600000000 \<le> datetime_max \<longrightarrow>
            calculate_reviews fromisoformat s n =
              Inr [\<lparr>re_review_number = 1, re_review_date = T + 1 * 3600000000,
                    re_interval_hours = Fin 1, re_completed = False, re_is_deleted = False\<rparr>,
                   \<lparr>re_review_number = 2, re_review_date = T + 24 * 3600000000,
                    re_interval_hours = Fin 24, re_completed = False, re_is_deleted = False\<rparr>,
                   \<lparr>re_review_number = 3, re_review_date = T + 72 * 3600000000,
                    re_interval_hours = Fin 72, re_completed = False, re_is_deleted = False\<rparr>,
                   \<lparr>re_review_number = 4, re_review_date = T + 168 * 3600000000,
                    re_interval_hours = Fin 168, re_completed = False, re_is_deleted = False\<rparr>,
                   \<lparr>re_review_number = 5, re_review_date = T + 336 * 3600000000,
                    re_interval_hours = Fin 336, re_completed = False, re_is_deleted = False\<rparr>,
                   \<lparr>re_review_number = 6, re_review_date = T + 720 * 3600000000,
                    re_interval_hours = Fin 720, re_completed = False, re_is_deleted = False\<rparr>])"
proof (intro conjI allI impI)
  from calculate_reviews_cases [where fromisoformat = fromisoformat and s = s, OF assms]
  show "calculate_reviews fromisoformat s n = Inl OverflowError \<or>
          (\<exists>f. spec_factor n = Inr (Fin f) \<and>
               calculate_reviews fromisoformat s n = Inr (spec_review_schedule T f))"
    by blast
next
  fix f
  assume "0 \<le> T \<and> spec_factor n = Inr (Fin f) \<and> round_val (720 * f) < 2 ^ 1024 \<and>
              T + hours_us (round_val (720 * f)) \<le> datetime_max"
  then show "calculate_reviews fromisoformat s n = Inr (spec_review_schedule T f)"
    using calculate_reviews_in_range [where fromisoformat = fromisoformat and s = s,
        OF assms(1) assms(2)]
    by blast
next
  assume a: "n = 0 \<and> 0 \<le> T \<and> T + 720 * 3600000000 \<le> datetime_max"
  then have "calculate_reviews fromisoformat s 0 = Inr (spec_review_schedule T 1)"
    using calculate_reviews_zero [where fromisoformat = fromisoformat and s = s, OF assms(1)]
    by blast
  with a show "calculate_reviews fromisoformat s n =
              Inr [\<lparr>re_review_number = 1, re_review_date = T + 1 * 3600000000,
                    re_interval_hours = Fin 1, re_completed = False, re_is_deleted = False\<rparr>,
                   \<lparr>re_review_number = 2, re_review_date = T + 24 * 3600000000,
                    re_interval_hours = Fin 24, re_completed = False, re_is_deleted = False\<rparr>,
                   \<lparr>re_review_number = 3, re_review_date = T + 72 * 3600000000,
                    re_interval_hours = Fin 72, re_completed = False, re_is_deleted = False\<rparr>,
                   \<lparr>re_review_number = 4, re_review_date = T + 168 * 3600000000,
                    re_interval_hours = Fin 168, re_completed = False, re_is_deleted = False\<rparr>,
                   \<lparr>re_review_number = 5, re_review_date = T + 336 * 3600000000,
                    re_interval_hours = Fin 336, re_completed = False, re_is_deleted = False\<rparr>,
                   \<lparr>re_review_number = 6, re_review_date = T + 720 * 3600000000,
                    re_interval_hours = Fin 720, re_completed = False, re_is_deleted = False\<rparr>]"
    by (simp only: spec_review_schedule_one)
qed

theorem calculate_reviews_schedule_witness:
  "sample_parser ''2024-01-01T00:00:00'' = Some 63839664000000000 \<and>
   map re_review_date (projr (calculate_reviews sample_parser ''2024-01-01T00:00:00'' 0)) =
     [63839667600000000, 63839750400000000, 63839923200000000, 63840268800000000,
      63840873600000000, 63842256000000000] \<and>
   map re_interval_hours (projr (calculate_reviews sample_parser ''2024-01-01T00:00:00'' 0)) =
     [Fin 1, Fin 24, Fin 72, Fin 168, Fin 336, Fin 720]"
proof -
  have p: "sample_parser ''2024-01-01T00:00:00'' = Some 63839664000000000"
    by (rule sample_parser_values)
  have n: "(0::int) \<le> 0" by simp
  have r: "(0::int) = 0 \<and> (0::int) \<le> 63839664000000000 \<and>
      63839664000000000 + 720 * 3600000000 \<le> datetime_max"
    by (simp add: datetime_max_def)
  from calculate_reviews_schedule [where fromisoformat = sample_parser
      and s = "''2024-01-01T00:00:00''" and n = 0, OF p n] r
  show ?thesis
    by (simp add: p)
qed

text \<open>
  C1 as stated fails: 9999-12-31T23:30:00 parses, the first review date would be one
  hour later, after \<open>datetime.max\<close>, and the addition raises \<open>OverflowError\<close>, which the
  handler of \<open>ValueError\<close> does not catch.
\<close>

theorem calculate_reviews_overflow_counterexample:
  "sample_parser ''9999-12-31T23:30:00'' = Some 315537895800000000 \<and>
   calculate_reviews sample_parser ''9999-12-31T23:30:00'' 0 = Inl OverflowError"
proof -
  have h: "hours_us 1 = 3600000000"
    using hours_us_of_int [of 1] by simp
  have "bind_err (timedelta_hours (fmul (Fin 1) (Fin 1))) (datetime_add 315537895800000000) =
      Inl OverflowError"
    by (simp add: round_double_def round_val_base h microseconds_to_delta_def datetime_add_def
        datetime_max_def)
  then have "calculate_reviews sample_parser ''9999-12-31T23:30:00'' 0 = Inl OverflowError"
    unfolding calculate_reviews_unfold [where fromisoformat = sample_parser
        and s = "''9999-12-31T23:30:00''", OF sample_parser_values(2) spec_factor_zero]
    by (simp add: BASE_INTERVALS_def)
  then show ?thesis
    by (simp add: sample_parser_values)
qed

text \<open>
  C7. For a date string that parses and a repetition number \<open>n \<ge> 0\<close>, the review dates
  that \<open>calculate_reviews\<close> returns are strictly increasing.
\<close>

theorem review_dates_increasing:
  assumes "fromisoformat s = Some T" and "0 \<le> n"
    and "calculate_reviews fromisoformat s n = Inr recs"
  shows "sorted_wrt (<) (map re_review_date recs) \<and> length recs = 6"
proof -
  from calculate_reviews_cases [where fromisoformat = fromisoformat and s = s, OF assms(1,2)]
    assms(3)
  obtain f where f: "1 / 2 \<le> f" and recs: "recs = spec_review_schedule T f"
    by auto
  note c = base_chain [OF f]
  have "map re_review_date recs =
      [T + hours_us (round_val (1 * f)), T + hours_us (round_val (24 * f)),
       T + hours_us (round_val (72 * f)), T + hours_us (round_val (168 * f)),
       T + hours_us (round_val (336 * f)), T + hours_us (round_val (720 * f))]"
    by (simp add: recs spec_review_schedule_def BASE_INTERVALS_def)
  moreover have "length recs = 6"
    by (simp add: recs spec_review_schedule_def BASE_INTERVALS_def)
  ultimately show ?thesis
    using c(6-10) by simp
qed

theorem review_dates_increasing_witness:
  "sorted_wrt (<)
     (map re_review_date (spec_review_schedule 63839664000000000 1)) \<and>
   calculate_reviews sample_parser ''2024-01-01T00:00:00'' 0 =
     Inr (spec_review_schedule 63839664000000000 1)"
  using review_dates_increasing [where fromisoformat = sample_parser
      and s = "''2024-01-01T00:00:00''" and n = 0, OF sample_parser_values(1) _
      calculate_reviews_sample]
    calculate_reviews_sample
  by simp

section \<open>Evaluation of roundings, ties included\<close>

lemma round_half_even_tie:
  assumes "even m" and "\<bar>x - of_int m\<bar> = 1 / 2"
  shows "round_half_even x = m"
proof -
  from assms(2) have "x = of_int m + 1 / 2 \<or> x = of_int m - 1 / 2"
    by linarith
  then show ?thesis
  proof
    assume x: "x = of_int m + 1 / 2"
    have "\<lfloor>x\<rfloor> = m"
      by (rule floor_unique) (simp_all add: x)
    with assms(1) show ?thesis
      by (simp add: round_half_even_def Let_def x)
  next
    assume x: "x = of_int m - 1 / 2"
    have f: "\<lfloor>x\<rfloor> = m - 1"
      by (rule floor_unique) (simp_all add: x)
    have "x - of_int (m - 1) = 1 / 2"
      by (simp add: x)
    with assms(1) show ?thesis
      by (simp add: round_half_even_def Let_def f)
  qed
qed

lemma round_val_scaled:
  assumes "j \<le> 1074"
    and "2 ^ 52 \<le> \<bar>x\<bar> * 2 ^ j" and "\<bar>x\<bar> * 2 ^ j < 2 ^ 53"
    and "\<bar>x * 2 ^ j - of_int m\<bar> < 1 / 2 \<or> (\<bar>x * 2 ^ j - of_int m\<bar> = 1 / 2 \<and> even m)"
  shows "round_val x = of_int m / 2 ^ j"
  using assms(4)
proof
  assume "\<bar>x * 2 ^ j - of_int m\<bar> < 1 / 2"
  with assms(1-3) show ?thesis
    by (rule round_val_small)
next
  assume t: "\<bar>x * 2 ^ j - of_int m\<bar> = 1 / 2 \<and> even m"
  have u: "1 / 2 ^ j = (2::rat) powi (- int j)"
    by (simp add: power_int_def field_simps)
  have x0: "x \<noteq> 0"
    using assms(2) by auto
  have a: "(2::rat) powi (- int j + 52) = 2 powi (- int j) * 2 powi 52"
    by (rule power_int_add) simp
  have "(2::rat) powi (- int j + 53) = 2 powi (- int j) * 2 powi 53"
    by (rule power_int_add) simp
  moreover have "- int j + 52 + 1 = - int j + 53" by simp
  ultimately have b: "(2::rat) powi (- int j + 52 + 1) = 2 powi (- int j) * 2 powi 53"
    by (simp only:)
  have "expo \<bar>x\<bar> = - int j + 52"
  proof (rule expo_unique)
    show "2 powi (- int j + 52) \<le> \<bar>x\<bar>"
      using assms(2) unfolding a u [symmetric] by (simp add: field_simps)
    show "\<bar>x\<bar> < 2 powi (- int j + 52 + 1)"
      using assms(3) unfolding b u [symmetric] by (simp add: field_simps)
  qed
  with assms(1) have "ulp x = 1 / 2 ^ j"
    by (simp add: ulp_def u)
  moreover from t have "round_half_even (x * 2 ^ j) = m"
    by (intro round_half_even_tie) simp_all
  ultimately show ?thesis
    using x0 by (simp add: round_val_def)
qed

section \<open>Values of the float operations of the optimizer\<close>

lemma round_val_0_8: "round_val (4 / 5) = 3602879701896397 / 4503599627370496"
  using round_val_scaled [where x = "4 / 5" and j = 53 and m = 7205759403792794]
  by simp

lemma round_val_1_2: "round_val (6 / 5) = 5404319552844595 / 4503599627370496"
  using round_val_scaled [where x = "6 / 5" and j = 52 and m = 5404319552844595]
  by simp

lemma round_val_10: "round_val (10) = 10"
  using round_val_scaled [where x = "10" and j = 49 and m = 5629499534213120]
  by simp

lemma round_val_20: "round_val (20) = 20"
  using round_val_scaled [where x = "20" and j = 48 and m = 5629499534213120]
  by simp



lemma round_val_10_times_0_8: "round_val (18014398509481985 / 2251799813685248) = 8"
  using round_val_scaled [where x = "18014398509481985 / 2251799813685248" and j = 49 and m = 4503599627370496]
  by simp

lemma round_val_10_times_1_2: "round_val (27021597764222975 / 2251799813685248) = 12"
  using round_val_scaled [where x = "27021597764222975 / 2251799813685248" and j = 49 and m = 6755399441055744]
  by simp

lemma round_val_20_times_0_8: "round_val (18014398509481985 / 1125899906842624) = 16"
  using round_val_scaled [where x = "18014398509481985 / 1125899906842624" and j = 48 and m = 4503599627370496]
  by simp

lemma round_val_20_times_1_2: "round_val (27021597764222975 / 1125899906842624) = 24"
  using round_val_scaled [where x = "27021597764222975 / 1125899906842624" and j = 48 and m = 6755399441055744]
  by simp

lemma round_val_base_1_times_0_8: "round_val (3602879701896397 / 4503599627370496) = 3602879701896397 / 4503599627370496"
  using round_val_scaled [where x = "3602879701896397 / 4503599627370496" and j = 53 and m = 7205759403792794]
  by simp

lemma round_val_base_24_times_0_8: "round_val (10808639105689191 / 562949953421312) = 1351079888211149 / 70368744177664"
  using round_val_scaled [where x = "10808639105689191 / 562949953421312" and j = 48 and m = 5404319552844596]
  by simp

lemma round_val_base_72_times_0_8: "round_val (32425917317067573 / 562949953421312) = 8106479329266893 / 140737488355328"
  using round_val_scaled [where x = "32425917317067573 / 562949953421312" and j = 47 and m = 8106479329266893]
  by simp

lemma round_val_base_168_times_0_8: "round_val (75660473739824337 / 562949953421312) = 4728779608739021 / 35184372088832"
  using round_val_scaled [where x = "75660473739824337 / 562949953421312" and j = 45 and m = 4728779608739021]
  by simp

lemma round_val_base_336_times_0_8: "round_val (75660473739824337 / 281474976710656) = 4728779608739021 / 17592186044416"
  using round_val_scaled [where x = "75660473739824337 / 281474976710656" and j = 44 and m = 4728779608739021]
  by simp

lemma round_val_base_720_times_0_8: "round_val (162129586585337865 / 281474976710656) = 576"
  using round_val_scaled [where x = "162129586585337865 / 281474976710656" and j = 43 and m = 5066549580791808]
  by simp

section \<open>The interval optimizer\<close>

lemma adjustment_factor_bound: "\<bar>adjustment_factor r\<bar> \<le> 5 / 4"
  by (simp add: adjustment_factor_def)

lemma adjustment_literal:
  "(if num_lt r 50 then float_literal (8 / 10)
    else if num_gt r 80 then float_literal (12 / 10)
    else float_literal 1) = Fin (adjustment_factor r)"
  by (simp add: adjustment_factor_def float_literal_def round_double_def round_val_0_8
      round_val_1_2 round_val_base)

lemma optimize_element:
  assumes b: "\<bar>b\<bar> \<le> 2 ^ 1023" and f: "\<bar>f\<bar> \<le> 5 / 4"
  shows "bind_err (float_of_int b) (\<lambda>x. py_int (fmul x (Fin f))) = Inr (scaled_interval f b)"
proof -
  define y where "y = round_val (of_int b)"
  define z where "z = round_val (y * f)"
  from b have "(of_int \<bar>b\<bar> :: rat) \<le> of_int (2 ^ 1023)"
    by (rule of_int_le_iff [THEN iffD2])
  then have b': "\<bar>of_int b :: rat\<bar> \<le> 2 ^ 1023"
    by simp
  have "\<bar>y\<bar> \<le> \<bar>of_int b\<bar> + \<bar>of_int b\<bar> / 2 ^ 53 + 1"
    unfolding y_def by (rule round_val_le)
  with b' have y: "\<bar>y\<bar> \<le> 2 ^ 1023 + 2 ^ 970 + 1"
    by simp
  then have "\<bar>y\<bar> < 2 ^ 1024"
    by simp
  then have conv: "float_of_int b = Inr (Fin y)"
    by (simp add: float_of_int_def y_def round_double_Fin)
  have "\<bar>y * f\<bar> = \<bar>y\<bar> * \<bar>f\<bar>"
    by (rule abs_mult)
  also have "\<dots> \<le> (2 ^ 1023 + 2 ^ 970 + 1) * (5 / 4)"
    using y f by (intro mult_mono) simp_all
  finally have yf: "\<bar>y * f\<bar> \<le> (2 ^ 1023 + 2 ^ 970 + 1) * (5 / 4)" .
  have "\<bar>z\<bar> \<le> \<bar>y * f\<bar> + \<bar>y * f\<bar> / 2 ^ 53 + 1"
    unfolding z_def by (rule round_val_le)
  with yf have "\<bar>z\<bar> < 2 ^ 1024"
    by simp
  then have "fmul (Fin y) (Fin f) = Fin z"
    by (simp add: z_def round_double_Fin)
  with conv show ?thesis
    by (simp add: scaled_interval_def y_def z_def)
qed

lemma optimize_scaled:
  assumes "\<forall>b \<in> set bs. \<bar>b\<bar> \<le> 2 ^ 1023"
  shows "optimize_review_intervals r bs = Inr (map (scaled_interval (adjustment_factor r)) bs)"
proof -
  have "\<forall>b \<in> set bs.
      bind_err (float_of_int b) (\<lambda>x. py_int (fmul x (Fin (adjustment_factor r)))) =
        Inr (scaled_interval (adjustment_factor r) b)"
    using assms optimize_element [OF _ adjustment_factor_bound] by blast
  from collect_map_Inr [OF this] show ?thesis
    by (simp only: optimize_review_intervals_def Let_def adjustment_literal)
qed

lemma py_trunc_numeral [simp]: "py_trunc (numeral k) = numeral k"
  by (simp add: py_trunc_def)

lemma scaled_examples:
  "scaled_interval (3602879701896397 / 4503599627370496) 10 = 8"
  "scaled_interval (3602879701896397 / 4503599627370496) 20 = 16"
  "scaled_interval (5404319552844595 / 4503599627370496) 10 = 12"
  "scaled_interval (5404319552844595 / 4503599627370496) 20 = 24"
  "scaled_interval 1 10 = 10" "scaled_interval 1 20 = 20"
  by (simp_all add: scaled_interval_def round_val_10 round_val_20 round_val_10_times_0_8
      round_val_20_times_0_8 round_val_10_times_1_2 round_val_20_times_1_2)

lemma optimize_examples:
  "optimize_review_intervals (PyInt 40) [10, 20] = Inr [8, 16]"
  "optimize_review_intervals (PyInt 90) [10, 20] = Inr [12, 24]"
  "optimize_review_intervals (PyInt 65) [10, 20] = Inr [10, 20]"
  "optimize_review_intervals (PyFloat (Fin 40)) [10, 20] = Inr [8, 16]"
  "optimize_review_intervals (PyFloat (Fin 90)) [10, 20] = Inr [12, 24]"
  "optimize_review_intervals (PyFloat (Fin 65)) [10, 20] = Inr [10, 20]"
  by (simp_all add: optimize_scaled adjustment_factor_def scaled_examples)

text \<open>
  C2 (as amended). For every completion rate and every list of integers of magnitude
  at most \<open>2 ^ 1023\<close>, \<open>optimize_review_intervals\<close> returns the list of the entries
  multiplied by one factor in float arithmetic and truncated: the float 0.8 below 50,
  the float 1.2 above 80, and 1 otherwise. The three examples of the specification hold,
  with the rate given as an \<open>int\<close> or as a \<open>float\<close>.
\<close>

theorem optimize_review_intervals_scaled:
  "((\<forall>b \<in> set bs. \<bar>b\<bar> \<le> 2 ^ 1023) \<longrightarrow>
      optimize_review_intervals r bs = Inr (map (scaled_interval (adjustment_factor r)) bs)) \<and>
   optimize_review_intervals (PyInt 40) [10, 20] = Inr [8, 16] \<and>
   optimize_review_intervals (PyInt 90) [10, 20] = Inr [12, 24] \<and>
   optimize_review_intervals (PyInt 65) [10, 20] = Inr [10, 20] \<and>
   optimize_review_intervals (PyFloat (Fin 40)) [10, 20] = Inr [8, 16] \<and>
   optimize_review_intervals (PyFloat (Fin 90)) [10, 20] = Inr [12, 24] \<and>
   optimize_review_intervals (PyFloat (Fin 65)) [10, 20] = Inr [10, 20]"
  using optimize_scaled [of bs r] by (simp only: optimize_examples) simp

theorem optimize_review_intervals_scaled_witness:
  "optimize_review_intervals (PyInt 40) [10, 20] =
     Inr (map (scaled_interval (adjustment_factor (PyInt 40))) [10, 20]) \<and>
   map (scaled_interval (adjustment_factor (PyInt 40))) [10, 20] = [8, 16]"
proof -
  have h: "\<forall>b \<in> set [10, 20 :: int]. \<bar>b\<bar> \<le> 2 ^ 1023"
    by simp
  from optimize_review_intervals_scaled [of "[10, 20]" "PyInt 40"] h
  have "optimize_review_intervals (PyInt 40) [10, 20] =
     Inr (map (scaled_interval (adjustment_factor (PyInt 40))) [10, 20])"
    by blast
  moreover have "map (scaled_interval (adjustment_factor (PyInt 40))) [10, 20] = [8, 16]"
    by (simp add: adjustment_factor_def scaled_examples)
  ultimately show ?thesis
    by blast
qed

text \<open>
  C2 as stated fails on a list with an entry that has no float: the conversion of
  \<open>2 ^ 1024\<close> raises \<open>OverflowError\<close> and no list is returned.
\<close>

lemma round_val_huge: "round_val (2 ^ 1024) = 2 ^ 1024"
  using round_val_large [where x = "2 ^ 1024" and j = 972 and m = "2 ^ 52"]
  by simp

theorem optimize_review_intervals_overflow_counterexample:
  "optimize_review_intervals (PyInt 40) [2 ^ 1024] = Inl OverflowError"
proof -
  have "round_double (of_int (2 ^ 1024)) = PosInf"
    using round_val_huge by (simp add: round_double_def)
  then have "float_of_int (2 ^ 1024) = Inl OverflowError"
    by (simp only: float_of_int_def pyfloat.case)
  then show ?thesis
    by (simp only: optimize_review_intervals_def Let_def list.map bind_err.simps collect.simps)
qed

section \<open>The schedules of a new learning item\<close>

lemma py_trunc_eqI:
  assumes "of_int k \<le> x" and "x < of_int k + 1" and "0 \<le> x"
  shows "py_trunc x = k"
proof -
  have "\<lfloor>x\<rfloor> = k"
    using assms(1,2) by (rule floor_unique)
  with assms(3) show ?thesis
    by (simp add: py_trunc_def)
qed

lemma scaled_base:
  "scaled_interval (3602879701896397 / 4503599627370496) 1 = 0"
  "scaled_interval (3602879701896397 / 4503599627370496) 24 = 19"
  "scaled_interval (3602879701896397 / 4503599627370496) 72 = 57"
  "scaled_interval (3602879701896397 / 4503599627370496) 168 = 134"
  "scaled_interval (3602879701896397 / 4503599627370496) 336 = 268"
  "scaled_interval (3602879701896397 / 4503599627370496) 720 = 576"
proof -
  show "scaled_interval (3602879701896397 / 4503599627370496) 1 = 0"
    using py_trunc_eqI [where x = "3602879701896397 / 4503599627370496" and k = 0]
    by (simp add: scaled_interval_def round_val_base round_val_base_1_times_0_8)
  show "scaled_interval (3602879701896397 / 4503599627370496) 24 = 19"
    using py_trunc_eqI [where x = "1351079888211149 / 70368744177664" and k = 19]
    by (simp add: scaled_interval_def round_val_base round_val_base_24_times_0_8)
  show "scaled_interval (3602879701896397 / 4503599627370496) 72 = 57"
    using py_trunc_eqI [where x = "8106479329266893 / 140737488355328" and k = 57]
    by (simp add: scaled_interval_def round_val_base round_val_base_72_times_0_8)
  show "scaled_interval (3602879701896397 / 4503599627370496) 168 = 134"
    using py_trunc_eqI [where x = "4728779608739021 / 35184372088832" and k = 134]
    by (simp add: scaled_interval_def round_val_base round_val_base_168_times_0_8)
  show "scaled_interval (3602879701896397 / 4503599627370496) 336 = 268"
    using py_trunc_eqI [where x = "4728779608739021 / 17592186044416" and k = 268]
    by (simp add: scaled_interval_def round_val_base round_val_base_336_times_0_8)
  show "scaled_interval (3602879701896397 / 4503599627370496) 720 = 576"
    by (simp add: scaled_interval_def round_val_base round_val_base_720_times_0_8)
qed

lemma optimize_below_50:
  assumes "num_lt r 50"
  shows "optimize_review_intervals r BASE_INTERVALS = Inr [0, 19, 57, 134, 268, 576]"
proof -
  have "\<forall>b \<in> set BASE_INTERVALS. \<bar>b\<bar> \<le> 2 ^ 1023"
    by (simp add: BASE_INTERVALS_def)
  from optimize_scaled [OF this, of r] assms show ?thesis
    by (simp add: adjustment_factor_def BASE_INTERVALS_def scaled_base)
qed

lemma create_learning_item_unfold:
  assumes "fromisoformat (lic_learning_date item) = Some ld"
    and "optimize_review_intervals (an_completion_rate (analyze_learning_pattern d (lic_user_id item)))
           BASE_INTERVALS = Inr ks"
  shows "create_learning_item fromisoformat item d =
     (case collect (map (\<lambda>k. bind_err (timedelta_hours_int k) (datetime_add ld)) ks) of
        Inl e \<Rightarrow> (Inl (handler e), d)
      | Inr review_dates \<Rightarrow>
          (Inr \<lparr>resp_item_id = next_id (map li_id (learning_items d)),
                resp_title = lic_title item,
                resp_learning_date = ld\<rparr>,
           d\<lparr>learning_items := learning_items d @
                [\<lparr>li_id = next_id (map li_id (learning_items d)),
                  li_title = lic_title item,
                  li_content = lic_content item,
                  li_learning_date = ld,
                  li_user_id = lic_user_id item\<rparr>],
             review_schedules := review_schedules d @
               new_schedules (next_id (map rs_id (review_schedules d)))
                 (next_id (map li_id (learning_items d))) review_dates\<rparr>))"
  using assms by (simp add: create_learning_item_def Let_def split: sum.splits)

lemma schedule_date_cases:
  "bind_err (timedelta_hours_int k) (datetime_add ld) = Inl OverflowError \<or>
   bind_err (timedelta_hours_int k) (datetime_add ld) = Inr (ld + k * 3600000000)"
  using microseconds_to_delta_cases [of "k * 3600000000"]
    datetime_add_cases [of ld "k * 3600000000"]
  by (auto simp: timedelta_hours_int_def us_per_hour_def)

lemma schedule_date_ok:
  assumes "0 \<le> ld" and "0 \<le> k" and "ld + k * 3600000000 \<le> datetime_max"
  shows "bind_err (timedelta_hours_int k) (datetime_add ld) = Inr (ld + k * 3600000000)"
proof -
  from assms(2) have "0 \<le> k * 3600000000" by simp
  from review_date_ok [OF assms(1) this assms(3)] show ?thesis
    by (simp add: timedelta_hours_int_def us_per_hour_def)
qed

text \<open>
  C9. For a user whose completion rate is below 50 the optimizer returns the intervals
  0, 19, 57, 134, 268 and 576: the first is \<open>int(1 * 0.8) = 0\<close>. Every learning item that
  \<open>create_learning_item\<close> creates for such a user gets six schedules, numbered 1 to 6,
  and the first has the learning date itself as its review date. The creation succeeds
  whenever the learning date plus 576 hours is not after \<open>datetime.max\<close>.
\<close>

theorem first_review_at_anchor:
  assumes "fromisoformat (lic_learning_date item) = Some ld"
    and "num_lt (an_completion_rate (analyze_learning_pattern d (lic_user_id item))) 50"
  shows "optimize_review_intervals
           (an_completion_rate (analyze_learning_pattern d (lic_user_id item))) BASE_INTERVALS =
           Inr [0, 19, 57, 134, 268, 576] \<and>
         (\<forall>r d'. create_learning_item fromisoformat item d = (Inr r, d') \<longrightarrow>
            (\<exists>ns. review_schedules d' = review_schedules d @ ns \<and>
               map rs_review_number ns = [1, 2, 3, 4, 5, 6] \<and>
               map rs_review_date ns =
                 [ld, ld + 19 * 3600000000, ld + 57 * 3600000000, ld + 134 * 3600000000,
                  ld + 268 * 3600000000, ld + 576 * 3600000000] \<and>
               (\<forall>s \<in> set ns. rs_learning_item_id s = resp_item_id r \<and> rs_completed s = None \<and>
                  \<not> rs_is_deleted s))) \<and>
         (0 \<le> ld \<and> ld + 576 * 3600000000 \<le> datetime_max \<longrightarrow>
            (\<exists>r d'. create_learning_item fromisoformat item d = (Inr r, d')))"
proof (intro conjI allI impI)
  let ?ks = "[0, 19, 57, 134, 268, 576] :: int list"
  let ?g = "\<lambda>k. bind_err (timedelta_hours_int k) (datetime_add ld)"
  let ?h = "\<lambda>k. ld + k * 3600000000"
  show opt: "optimize_review_intervals
           (an_completion_rate (analyze_learning_pattern d (lic_user_id item))) BASE_INTERVALS =
           Inr ?ks"
    by (rule optimize_below_50 [OF assms(2)])
  note unfold = create_learning_item_unfold [where fromisoformat = fromisoformat,
      OF assms(1) opt]
  {
    fix r d'
    assume ok: "create_learning_item fromisoformat item d = (Inr r, d')"
    have "\<forall>k \<in> set ?ks. ?g k = Inl OverflowError \<or> ?g k = Inr (?h k)"
      using schedule_date_cases by blast
    from collect_map_cases [OF this]
    have c: "collect (map ?g ?ks) = Inr (map ?h ?ks)"
      using ok unfolding unfold by auto
    from ok have r: "resp_item_id r = next_id (map li_id (learning_items d))"
      and d': "review_schedules d' = review_schedules d @
               new_schedules (next_id (map rs_id (review_schedules d)))
                 (next_id (map li_id (learning_items d))) (map ?h ?ks)"
      unfolding unfold c by auto
    show "\<exists>ns. review_schedules d' = review_schedules d @ ns \<and>
               map rs_review_number ns = [1, 2, 3, 4, 5, 6] \<and>
               map rs_review_date ns =
                 [ld, ld + 19 * 3600000000, ld + 57 * 3600000000, ld + 134 * 3600000000,
                  ld + 268 * 3600000000, ld + 576 * 3600000000] \<and>
               (\<forall>s \<in> set ns. rs_learning_item_id s = resp_item_id r \<and> rs_completed s = None \<and>
                  \<not> rs_is_deleted s)"
      by (rule exI [where x = "new_schedules (next_id (map rs_id (review_schedules d)))
                 (next_id (map li_id (learning_items d))) (map ?h ?ks)"])
        (simp add: d' r new_schedules_def)
  }
  {
    assume range: "0 \<le> ld \<and> ld + 576 * 3600000000 \<le> datetime_max"
    have "\<forall>k \<in> set ?ks. ?g k = Inr (?h k)"
    proof
      fix k assume "k \<in> set ?ks"
      then have "0 \<le> k" and "k \<le> 576" by auto
      with range have "ld + k * 3600000000 \<le> datetime_max" by simp
      with range \<open>0 \<le> k\<close> show "?g k = Inr (?h k)"
        by (intro schedule_date_ok) simp_all
    qed
    from collect_map_Inr [OF this]
    show "\<exists>r d'. create_learning_item fromisoformat item d = (Inr r, d')"
      unfolding unfold by simp
  }
qed

theorem first_review_at_anchor_witness:
  "sample_parser (lic_learning_date (sample_item ''2024-01-01T00:00:00'')) = Some 63839664000000000 \<and>
   num_lt (an_completion_rate (analyze_learning_pattern empty_db 1)) 50 \<and>
   map rs_review_date (review_schedules
     (snd (create_learning_item sample_parser (sample_item ''2024-01-01T00:00:00'') empty_db))) =
     [63839664000000000, 63839732400000000, 63839869200000000, 63840146400000000,
      63840628800000000, 63841737600000000]"
proof -
  let ?item = "sample_item ''2024-01-01T00:00:00''"
  have p: "sample_parser (lic_learning_date ?item) = Some 63839664000000000"
    by (simp add: sample_item_def sample_parser_def)
  have u: "lic_user_id ?item = 1"
    by (simp add: sample_item_def)
  have lt: "num_lt (an_completion_rate (analyze_learning_pattern empty_db 1)) 50"
    by (simp add: analyze_learning_pattern_def joined_def empty_db_def)
  then have lt': "num_lt (an_completion_rate (analyze_learning_pattern empty_db (lic_user_id ?item))) 50"
    by (simp only: u)
  have range: "(0::int) \<le> 63839664000000000 \<and>
      63839664000000000 + 576 * 3600000000 \<le> datetime_max"
    by (simp add: datetime_max_def)
  note t = first_review_at_anchor [where fromisoformat = sample_parser and item = ?item
      and d = empty_db, OF p lt']
  from t range obtain r d' where c: "create_learning_item sample_parser ?item empty_db = (Inr r, d')"
    by blast
  from t [THEN conjunct2, THEN conjunct1, rule_format, OF c]
  obtain ns where "review_schedules d' = review_schedules empty_db @ ns"
    and "map rs_review_date ns =
      [63839664000000000, 63839664000000000 + 19 * 3600000000,
       63839664000000000 + 57 * 3600000000, 63839664000000000 + 134 * 3600000000,
       63839664000000000 + 268 * 3600000000, 63839664000000000 + 576 * 3600000000]"
    by (elim exE conjE)
  then have "map rs_review_date (review_schedules d') =
     [63839664000000000, 63839732400000000, 63839869200000000, 63840146400000000,
      63840628800000000, 63841737600000000]"
    by (simp add: empty_db_def)
  with p lt c show ?thesis
    by simp
qed

section \<open>The analytics\<close>








lemma round_half_even_numeral [simp]: "round_half_even (numeral k) = numeral k"
  using round_half_even_of_int [of "numeral k"] by simp

lemma round_val_0_7: "round_val (7 / 10) = 3152519739159347 / 4503599627370496"
  using round_val_scaled [where x = "7 / 10" and j = 53 and m = 6305039478318694]
  by simp

lemma round_val_0_7_times_100: "round_val (78812993478983675 / 1125899906842624) = 70"
  using round_val_scaled [where x = "78812993478983675 / 1125899906842624" and j = 46 and m = 4925812092436480]
  by simp

lemma round_val_70: "round_val (70) = 70"
  using round_val_scaled [where x = "70" and j = 46 and m = 4925812092436480]
  by simp

text \<open>Seven completed schedules of ten give 70.0, the example of the specification.\<close>

lemma completion_rate_7_of_10:
  "py_round1 (PyFloat (fmul (round_double (of_nat 7 / of_nat 10)) (Fin 100))) = PyFloat (Fin 70)"
  by (simp add: round_double_def round_val_0_7 round_val_0_7_times_100 round_val_70)

section \<open>Rounding to one decimal digit\<close>











section \<open>The primary keys are kept by every operation\<close>

lemma wf_db_empty: "wf_db empty_db"
  by (simp add: wf_db_def empty_db_def)

lemma update_schedule_wf:
  assumes "\<And>s. rs_id (f s) = rs_id s" and "wf_db d"
  shows "wf_db (update_schedule k f d)"
proof -
  have "map rs_id (map (\<lambda>s. if rs_id s = k then f s else s) xs) = map rs_id xs" for xs
    by (induction xs) (simp_all add: assms(1))
  then have "map rs_id (review_schedules (update_schedule k f d)) = map rs_id (review_schedules d)"
    by (simp only: update_schedule_tables)
  with assms(2) show ?thesis
    by (simp only: wf_db_def update_schedule_tables)
qed

lemma complete_review_wf: "wf_db d \<Longrightarrow> wf_db (snd (complete_review k now d))"
  by (cases "first_schedule d k") (simp_all add: complete_review_def update_schedule_wf)

lemma delete_review_wf: "wf_db d \<Longrightarrow> wf_db (snd (delete_review k d))"
  by (cases "first_schedule d k") (simp_all add: delete_review_def update_schedule_wf)

lemma delete_learning_item_wf: "wf_db d \<Longrightarrow> wf_db (snd (delete_learning_item k d))"
  by (cases "find (\<lambda>i. li_id i = k) (learning_items d)")
    (simp_all add: delete_learning_item_def wf_db_def distinct_map_filter)

lemma fold_max_start: "a \<le> fold max ids (a::int)"
proof (induction ids arbitrary: a)
  case Nil
  show ?case by simp
next
  case (Cons i ids)
  have "a \<le> max i a" by simp
  also have "\<dots> \<le> fold max ids (max i a)" by (rule Cons.IH)
  finally show ?case by simp
qed

lemma fold_max_ge: "k \<in> set ids \<Longrightarrow> k \<le> fold max ids (a::int)"
proof (induction ids arbitrary: a)
  case Nil
  then show ?case by simp
next
  case (Cons i ids)
  show ?case
  proof (cases "k = i")
    case True
    have "k \<le> max i a" using True by simp
    also have "\<dots> \<le> fold max ids (max i a)" by (rule fold_max_start)
    finally show ?thesis by simp
  next
    case False
    with Cons.prems have "k \<in> set ids" by simp
    then show ?thesis by (simp add: Cons.IH)
  qed
qed

lemma next_id_fresh: "k \<in> set ids \<Longrightarrow> k < next_id ids"
  using fold_max_ge [of k ids 0] by (simp add: next_id_def)

lemma new_schedules_ids:
  "map rs_id (new_schedules first_id item_id ds) =
     map (\<lambda>j. first_id + int j - 1) [1..<1 + length ds]"
proof -
  have "map rs_id (map (\<lambda>(i, review_date).
            \<lparr>rs_id = first_id + int i - 1,
             rs_learning_item_id = item_id,
             rs_review_number = int i,
             rs_review_date = review_date,
             rs_completed = None,
             rs_is_deleted = False\<rparr>) xs) =
      map (\<lambda>j. first_id + int j - 1) (map fst xs)" for xs :: "(nat \<times> datetime) list"
    by (induction xs) (simp_all add: case_prod_unfold)
  then show ?thesis
    unfolding new_schedules_def by (simp only: map_fst_enumerate)
qed

lemma create_learning_item_wf:
  assumes "wf_db d"
  shows "wf_db (snd (create_learning_item fromisoformat item d))"
proof (cases "fst (create_learning_item fromisoformat item d)")
  case (Inl e)
  from create_learning_item_failure [OF this] assms show ?thesis
    by simp
next
  case (Inr r)
  define f where "f = next_id (map rs_id (review_schedules d))"
  from Inr obtain ds where d': "snd (create_learning_item fromisoformat item d) =
      d\<lparr>learning_items := learning_items d @
           [\<lparr>li_id = next_id (map li_id (learning_items d)),
             li_title = lic_title item, li_content = lic_content item,
             li_learning_date = the (fromisoformat (lic_learning_date item)),
             li_user_id = lic_user_id item\<rparr>],
         review_schedules := review_schedules d @
           new_schedules f (next_id (map li_id (learning_items d))) ds\<rparr>"
    by (auto simp: create_learning_item_def Let_def f_def split: option.splits sum.splits)
  have item_fresh: "next_id (map li_id (learning_items d)) \<notin> set (map li_id (learning_items d))"
    using next_id_fresh [of "next_id (map li_id (learning_items d))" "map li_id (learning_items d)"]
    by auto
  have inj: "inj_on (\<lambda>j. f + int j - 1) (set [1..<1 + length ds])"
    by (rule inj_onI) simp
  then have new_distinct: "distinct (map rs_id (new_schedules f i ds))" for i
    by (simp add: new_schedules_ids distinct_map)
  have disjoint: "set (map rs_id (review_schedules d)) \<inter> set (map rs_id (new_schedules f i ds)) = {}"
    for i
  proof (rule ccontr)
    assume "set (map rs_id (review_schedules d)) \<inter> set (map rs_id (new_schedules f i ds)) \<noteq> {}"
    then obtain k where old: "k \<in> set (map rs_id (review_schedules d))"
      and new: "k \<in> set (map rs_id (new_schedules f i ds))"
      by blast
    from next_id_fresh [OF old] have "k < f" by (simp add: f_def)
    moreover from new have "f \<le> k"
      unfolding new_schedules_ids by auto
    ultimately show False by simp
  qed
  from assms item_fresh new_distinct disjoint show ?thesis
    unfolding d' wf_db_def by simp
qed

end
